theory Spec2Isabelle
  imports Complex_Main
begin

section \<open>Data model of zurg-monitor.py\<close>

text \<open>
  The monitor polls a Zurg instance, counts broken and under-repair torrents, triggers
  repairs and keeps statistics. Python integers are unbounded, so counters are \<open>int\<close>.
  Sleep durations are the configuration's numbers; they are never computed with, so exact
  rationals stand for them (0.5 is \<open>1/2\<close>). A \<open>datetime\<close> is a clock reading.
\<close>

type_synonym datetime = nat

datatype LogLevel = INFO | WARN | ERROR | SUCCESS | DEBUG | TRACE | OUTPUT

record TorrentInfo =
  hash :: string
  name :: string
  state :: string

record CheckStats =
  broken_found :: int
  under_repair_found :: int
  repairs_triggered :: int
  broken_hashes :: "string list"
  broken_names :: "string list"
  under_repair_hashes :: "string list"
  under_repair_names :: "string list"
  total_torrents :: int
  ok_torrents :: int

record OverallStats =
  total_checks :: int
  broken_found :: int
  under_repair_found :: int
  repairs_triggered :: int
  last_check :: "datetime option"
  last_broken_found :: "datetime option"
  current_check :: CheckStats
  previous_check_broken :: "string list"
  previous_check_under_repair :: "string list"
  previous_check_triggered :: "string list"

text \<open>The dataclass defaults: \<open>CheckStats()\<close> and \<open>OverallStats()\<close>.\<close>

definition CheckStats_init :: CheckStats where
  "CheckStats_init =
     \<lparr>CheckStats.broken_found = 0, CheckStats.under_repair_found = 0,
      CheckStats.repairs_triggered = 0, broken_hashes = [], broken_names = [],
      under_repair_hashes = [], under_repair_names = [], total_torrents = 0,
      ok_torrents = 0\<rparr>"

definition OverallStats_init :: OverallStats where
  "OverallStats_init =
     \<lparr>total_checks = 0, OverallStats.broken_found = 0, OverallStats.under_repair_found = 0,
      OverallStats.repairs_triggered = 0, last_check = None, last_broken_found = None,
      current_check = CheckStats_init, previous_check_broken = [],
      previous_check_under_repair = [], previous_check_triggered = []\<rparr>"

text \<open>
  The configuration dictionary after \<open>load_config\<close>, restricted to the keys the
  monitoring engine reads.
\<close>

record Config =
  zurg_url :: string
  check_interval :: int
  rate_limit_requests :: int
  rate_limit_delay :: rat
  rate_limit_backoff :: rat

definition default_config :: Config where
  "default_config =
     \<lparr>zurg_url = ''http://localhost:9999'', check_interval = 30,
      rate_limit_requests = 10, rate_limit_delay = 1 / 2, rate_limit_backoff = 5\<rparr>"

text \<open>The metrics of the "comparison with previous check" part of the check summary.\<close>

record Comparison =
  repaired :: nat
  moved_to_repair :: nat
  still_broken :: nat
  still_under_repair :: nat
  new_broken :: nat

text \<open>
  What the monitor does to the outside world, in the order it does it: the calls of
  \<open>time.sleep\<close>, the HTTP requests (method and URL), the two reports, what \<open>main\<close>
  prints, and the log lines
  that the properties below speak about (banners, blank lines and per-torrent listings are
  presentation and are not recorded; neither are DEBUG and TRACE lines, which are dropped
  unless the matching verbosity flag is set).
\<close>

datatype event =
    Sleep rat
  | Request string string
  | Log LogLevel string
  | Print string
  | CheckSummary CheckStats "Comparison option"
  | OverallStatistics int int int int "datetime option" "datetime option"

text \<open>
  The \<open>ZurgMonitor\<close> object. \<open>self.rate_limit_delay\<close> and
  \<open>self.rate_limit_requests\<close> are copies of the configuration's entries made by
  \<open>__init__\<close> and never assigned again, so they are read from \<open>config\<close>.
  \<open>trace\<close> is the chronological list of events.
\<close>

record ZurgMonitor =
  config :: Config
  dry_run :: bool
  stats :: OverallStats
  request_count :: int
  trace :: "event list"

definition ZurgMonitor_init :: "Config \<Rightarrow> bool \<Rightarrow> ZurgMonitor" where
  "ZurgMonitor_init cfg dry =
     \<lparr>config = cfg, dry_run = dry, stats = OverallStats_init, request_count = 0, trace = []\<rparr>"

definition emit :: "event \<Rightarrow> ZurgMonitor \<Rightarrow> ZurgMonitor" where
  "emit e m = m\<lparr>trace := trace m @ [e]\<rparr>"

section \<open>Remote state client\<close>

subsection \<open>Rate limiter\<close>

text \<open>
  Exceptions are values. \<open>time.sleep\<close> raises \<open>ValueError\<close> when it is given a
  negative length, and the delays of the configuration file are not validated, so a
  sleep either happens, and is recorded in the trace, or raises.
\<close>

datatype exn = KeyboardInterrupt | NameError string | ValueError string | PyException string

definition sleep :: "rat \<Rightarrow> ZurgMonitor \<Rightarrow> exn option \<times> ZurgMonitor" where
  "sleep seconds m =
     (if seconds < 0 then (Some (ValueError ''sleep length must be non-negative''), m)
      else (None, emit (Sleep seconds) m))"

text \<open>
  \<open>_check_rate_limit\<close>: the counter is incremented first and compared afterwards; the
  backoff branch sleeps the backoff time and then resets the counter, the other branch
  sleeps the short delay. When the sleep raises, the exception leaves the function with
  the counter incremented and not reset.
\<close>

definition check_rate_limit :: "ZurgMonitor \<Rightarrow> exn option \<times> ZurgMonitor" where
  "check_rate_limit m =
     (let m1 = m\<lparr>request_count := request_count m + 1\<rparr> in
      if request_count m1 \<ge> rate_limit_requests (config m1)
      then (case sleep (rate_limit_backoff (config m1)) m1 of
              (Some e, m2) \<Rightarrow> (Some e, m2)
            | (None, m2) \<Rightarrow> (None, m2\<lparr>request_count := 0\<rparr>))
      else sleep (rate_limit_delay (config m1)) m1)"

subsection \<open>Requests\<close>

text \<open>
  What \<open>urllib.request.urlopen\<close> does with a request is the environment's choice: it
  answers with a body (a byte string; a \<open>char\<close> is a byte) or raises. \<open>_make_request\<close>
  turns every exception into \<open>None\<close>.
\<close>

datatype http_outcome =
    Response string
  | HTTPError int string
  | URLError string
  | OtherException string

definition make_request ::
  "string \<Rightarrow> string \<Rightarrow> http_outcome \<Rightarrow> ZurgMonitor \<Rightarrow> string option \<times> ZurgMonitor" where
  "make_request url method outcome m =
     (let m1 = emit (Request method url) m in
      case outcome of
        Response content \<Rightarrow> (Some content, m1)
      | HTTPError code reason \<Rightarrow> (None, m1)
      | URLError reason \<Rightarrow> (None, m1)
      | OtherException msg \<Rightarrow> (None, m1))"

text \<open>
  \<open>test_connection\<close> tests \<open>if content:\<close>, the truth value of an optional byte string:
  false for \<open>None\<close> and for the empty body.
\<close>

definition truthy_bytes :: "string option \<Rightarrow> bool" where
  "truthy_bytes content = (case content of None \<Rightarrow> False | Some b \<Rightarrow> b \<noteq> [])"

definition test_connection :: "http_outcome \<Rightarrow> ZurgMonitor \<Rightarrow> bool \<times> ZurgMonitor" where
  "test_connection outcome m =
     (let url = zurg_url (config m) @ ''/stats'';
          (content, m1) = make_request url ''GET'' outcome m
      in if truthy_bytes content
         then (True, emit (Log SUCCESS ''Successfully connected to Zurg'') m1)
         else (False, emit (Log ERROR ''Failed to connect to Zurg'') m1))"

text \<open>
  \<open>trigger_repair\<close> tests \<open>content is not None\<close>. An exception of the rate limiter is
  caught by its \<open>except Exception\<close> clause: no request is made and the result is
  \<open>False\<close>.
\<close>

definition trigger_repair ::
  "string \<Rightarrow> string \<Rightarrow> http_outcome \<Rightarrow> ZurgMonitor \<Rightarrow> bool \<times> ZurgMonitor" where
  "trigger_repair hash_value nm outcome m =
     (if dry_run m
      then (True, emit (Log INFO (''[DRY RUN] Would trigger repair for: '' @ nm)) m)
      else
        let m1 = emit (Log INFO (''Triggering repair for torrent: '' @ nm)) m;
            repair_url = zurg_url (config m1) @ ''/manage/'' @ hash_value @ ''/repair''
        in case check_rate_limit m1 of
             (Some e, m2) \<Rightarrow>
               (False, emit (Log ERROR (''Error triggering repair for: '' @ nm)) m2)
           | (None, m2) \<Rightarrow>
               let (content, m3) = make_request repair_url ''POST'' outcome m2
               in if content \<noteq> None
                  then (True, emit (Log SUCCESS (''Successfully triggered repair for: '' @ nm)) m3)
                  else (False, emit (Log ERROR (''Failed to trigger repair for: '' @ nm)) m3))"

section \<open>State extractor: the total count\<close>

text \<open>
  \<open>get_total_torrent_stats\<close> runs \<open>re.finditer\<close> with the pattern
  \<^verbatim>\<open>data-hash="([a-fA-F0-9]{40})"\<close> over the page, lower-cases every captured group,
  adds it to a set and returns the size of the set. The pattern is a literal, forty
  characters of one class and a literal, so at each position there is at most one way to
  match: \<open>match_data_hash\<close> is the match that starts at the head of the string, with the
  group and the text after the match. The page is a string of characters; the pattern
  names ASCII characters only, and every other character merely fails to match.
\<close>

definition is_hex :: "char \<Rightarrow> bool" where
  "is_hex c = (c \<in> set ''0123456789abcdefABCDEF'')"

definition attr_prefix :: string where
  "attr_prefix = ''data-hash='' @ [CHR 0x22]"

definition match_data_hash :: "string \<Rightarrow> (string \<times> string) option" where
  "match_data_hash s =
     (if take 11 s = attr_prefix
         \<and> length (take 40 (drop 11 s)) = 40
         \<and> list_all is_hex (take 40 (drop 11 s))
         \<and> take 1 (drop 51 s) = [CHR 0x22]
      then Some (take 40 (drop 11 s), drop 52 s)
      else None)"

text \<open>
  \<open>re.finditer\<close> yields the non-overlapping matches from left to right: after a match the
  scan goes on behind it, otherwise one character further.
\<close>

function finditer_data_hash :: "string \<Rightarrow> string list" where
  "finditer_data_hash [] = []"
| "finditer_data_hash (c # cs) =
     (case match_data_hash (c # cs) of
        Some (g, rest) \<Rightarrow> g # finditer_data_hash rest
      | None \<Rightarrow> finditer_data_hash cs)"
  by pat_completeness auto
termination
  by (relation "measure length") (auto simp: match_data_hash_def split: if_splits)

text \<open>
  \<open>str.lower\<close>, on the characters it is applied to here: the captured group holds only
  digits and the letters a to f in either case.
\<close>

definition lower_char :: "char \<Rightarrow> char" where
  "lower_char c =
     (if 65 \<le> (of_char c :: nat) \<and> (of_char c :: nat) \<le> 90
      then char_of ((of_char c :: nat) + 32) else c)"

definition lower :: "string \<Rightarrow> string" where
  "lower s = map lower_char s"

definition count_total :: "string \<Rightarrow> int" where
  "count_total html_content =
     (let unique_hashes = fold (\<lambda>g hashes. insert (lower g) hashes)
                               (finditer_data_hash html_content) {}
      in int (card unique_hashes))"

text \<open>
  The occurrences of the pattern in a page, wherever they start and whether or not they
  overlap: the groups that the scan has to find.
\<close>

definition occurrences :: "string \<Rightarrow> string set" where
  "occurrences html_content =
     {h. \<exists>pre post. html_content = pre @ attr_prefix @ h @ [CHR 0x22] @ post
           \<and> length h = 40 \<and> list_all is_hex h}"

subsection \<open>The specification's identifiers\<close>

text \<open>
  The specification's words, written without the functions of the code. A hexadecimal
  digit is given by its character code, an identifier is forty of them, and two
  identifiers are the same when they agree after the six capital letters A to F are
  replaced by the small ones; \<open>canonical\<close> is the representative of an identifier.
\<close>

definition hex_digit :: "char \<Rightarrow> bool" where
  "hex_digit c =
     ((48 \<le> (of_char c :: nat) \<and> (of_char c :: nat) \<le> 57)
      \<or> (65 \<le> (of_char c :: nat) \<and> (of_char c :: nat) \<le> 70)
      \<or> (97 \<le> (of_char c :: nat) \<and> (of_char c :: nat) \<le> 102))"

definition hex_identifier :: "string \<Rightarrow> bool" where
  "hex_identifier h = (length h = 40 \<and> filter hex_digit h = h)"

fun fold_case :: "char \<Rightarrow> char" where
  "fold_case c =
     (if c = CHR ''A'' then CHR ''a'' else if c = CHR ''B'' then CHR ''b''
      else if c = CHR ''C'' then CHR ''c'' else if c = CHR ''D'' then CHR ''d''
      else if c = CHR ''E'' then CHR ''e'' else if c = CHR ''F'' then CHR ''f'' else c)"

definition canonical :: "string \<Rightarrow> string" where
  "canonical h = map fold_case h"

text \<open>
  The claim as it is worded: the identifiers found anywhere in the markup, forty
  hexadecimal digits in a row wherever they stand.
\<close>

definition identifiers_anywhere :: "string \<Rightarrow> string set" where
  "identifiers_anywhere html_content =
     {canonical h | h pre post. html_content = pre @ h @ post \<and> hex_identifier h}"

text \<open>
  The identifiers that are the value of a \<^verbatim>\<open>data-hash="..."\<close> attribute, the attribute
  standing anywhere in the markup, in whatever element and row.
\<close>

definition data_hash_identifiers :: "string \<Rightarrow> string set" where
  "data_hash_identifiers html_content =
     {canonical h | h pre post.
        html_content = pre @ ''data-hash='' @ [CHR 0x22] @ h @ [CHR 0x22] @ post
        \<and> hex_identifier h}"

section \<open>One check cycle\<close>

text \<open>
  The two fetch operations. The environment supplies what the request and the parsing of
  its answer come to: for the full listing the page decoded to text (\<open>None\<close> when the
  request failed), for a category the list that \<open>_parse_torrents_from_html\<close> returns
  (\<open>None\<close> when the request or the parsing failed). Both operations catch every
  exception and return \<open>None\<close>, also the one of the rate limiter, which is called before
  the request. The parser of the category pages is not part of this development.
\<close>

definition get_total_torrent_stats ::
  "string option \<Rightarrow> ZurgMonitor \<Rightarrow> int option \<times> ZurgMonitor" where
  "get_total_torrent_stats page m =
     (let url = zurg_url (config m) @ ''/manage/'' in
      case check_rate_limit m of
        (Some e, m1) \<Rightarrow> (None, m1)
      | (None, m1) \<Rightarrow>
          (let m2 = emit (Request ''GET'' url) m1
           in case page of
                None \<Rightarrow> (None, m2)
              | Some html_content \<Rightarrow> (Some (count_total html_content), m2)))"

definition get_torrents_by_state ::
  "string \<Rightarrow> TorrentInfo list option \<Rightarrow> ZurgMonitor
     \<Rightarrow> TorrentInfo list option \<times> ZurgMonitor" where
  "get_torrents_by_state st result m =
     (let url = zurg_url (config m) @ ''/manage/?state='' @ st in
      case check_rate_limit m of
        (Some e, m1) \<Rightarrow> (None, m1)
      | (None, m1) \<Rightarrow> (result, emit (Request ''GET'' url) m1))"

subsection \<open>The check summary\<close>

text \<open>\<open>sum(1 for h in xs if P(h))\<close>\<close>

definition count_if :: "('a \<Rightarrow> bool) \<Rightarrow> 'a list \<Rightarrow> nat" where
  "count_if P xs = sum_list (map (\<lambda>h. 1) (filter P xs))"

text \<open>
  The comparison with the previous check is computed only when the list of hashes
  triggered in the previous check is not empty.
\<close>

definition comparison :: "OverallStats \<Rightarrow> Comparison option" where
  "comparison s =
     (let cur = current_check s in
      if previous_check_triggered s \<noteq> [] then
        Some \<lparr>repaired = count_if (\<lambda>h. h \<notin> set (broken_hashes cur)
                                      \<and> h \<notin> set (under_repair_hashes cur))
                                (previous_check_triggered s),
              moved_to_repair = count_if (\<lambda>h. h \<in> set (under_repair_hashes cur))
                                (previous_check_broken s),
              still_broken = count_if (\<lambda>h. h \<in> set (broken_hashes cur))
                                (previous_check_broken s),
              still_under_repair = count_if (\<lambda>h. h \<in> set (under_repair_hashes cur))
                                (previous_check_under_repair s),
              new_broken = count_if (\<lambda>h. h \<notin> set (previous_check_broken s)
                                      \<and> h \<notin> set (previous_check_under_repair s))
                                (broken_hashes cur)\<rparr>
      else None)"

definition show_check_summary :: "ZurgMonitor \<Rightarrow> ZurgMonitor" where
  "show_check_summary m =
     emit (CheckSummary (current_check (stats m)) (comparison (stats m))) m"

definition show_overall_statistics :: "ZurgMonitor \<Rightarrow> ZurgMonitor" where
  "show_overall_statistics m =
     (let s = stats m in
      emit (OverallStatistics (total_checks s) (OverallStats.broken_found s)
              (OverallStats.under_repair_found s) (OverallStats.repairs_triggered s)
              (last_check s) (last_broken_found s)) m)"

subsection \<open>perform\_check\<close>

text \<open>
  What one cycle gets from its environment: the results of the three fetches, the answer
  to the \<open>k\<close>-th call of \<open>trigger_repair\<close> of the cycle, and the clock readings stored as
  \<open>last_check\<close> and \<open>last_broken_found\<close>.
\<close>

record cycle_env =
  total_page :: "string option"
  broken_result :: "TorrentInfo list option"
  under_repair_result :: "TorrentInfo list option"
  repair_outcome :: "nat \<Rightarrow> http_outcome"
  now_check :: datetime
  now_broken :: datetime

definition upd_stats :: "(OverallStats \<Rightarrow> OverallStats) \<Rightarrow> ZurgMonitor \<Rightarrow> ZurgMonitor" where
  "upd_stats f m = m\<lparr>stats := f (stats m)\<rparr>"

definition upd_current :: "(CheckStats \<Rightarrow> CheckStats) \<Rightarrow> ZurgMonitor \<Rightarrow> ZurgMonitor" where
  "upd_current f m = upd_stats (\<lambda>s. s\<lparr>current_check := f (current_check s)\<rparr>) m"

text \<open>
  The two trigger loops: \<open>trigger_repair\<close> for every torrent of the list in order, both
  counters of triggered repairs incremented on success, and half a second of sleep after
  each call.
\<close>

fun trigger_repairs ::
  "(nat \<Rightarrow> http_outcome) \<Rightarrow> nat \<Rightarrow> TorrentInfo list \<Rightarrow> ZurgMonitor \<Rightarrow> ZurgMonitor" where
  "trigger_repairs outcome k [] m = m"
| "trigger_repairs outcome k (torrent # rest) m =
     (let (success, m1) = trigger_repair (hash torrent) (name torrent) (outcome k) m;
          m2 = (if success
                then upd_stats (\<lambda>s. s\<lparr>OverallStats.repairs_triggered :=
                                         OverallStats.repairs_triggered s + 1\<rparr>)
                       (upd_current (\<lambda>c. c\<lparr>CheckStats.repairs_triggered :=
                                              CheckStats.repairs_triggered c + 1\<rparr>) m1)
                else m1);
          m3 = emit (Sleep (1 / 2)) m2
      in trigger_repairs outcome (Suc k) rest m3)"

text \<open>Lines 672 to 678: the current lists become the previous ones.\<close>

definition save_previous :: "string list \<Rightarrow> ZurgMonitor \<Rightarrow> ZurgMonitor" where
  "save_previous triggered m =
     upd_stats (\<lambda>s. s\<lparr>previous_check_broken := broken_hashes (current_check s),
                      previous_check_under_repair := under_repair_hashes (current_check s),
                      previous_check_triggered := triggered\<rparr>) m"

text \<open>
  Lines 581 to 625: the check is counted, the two lists are counted into the current and
  the cumulative statistics, the number of healthy torrents is computed when the total is
  positive, and hashes and names are appended to the current lists.
\<close>

definition record_counts ::
  "cycle_env \<Rightarrow> TorrentInfo list \<Rightarrow> TorrentInfo list \<Rightarrow> ZurgMonitor \<Rightarrow> ZurgMonitor" where
  "record_counts env broken_torrents under_repair_torrents m =
     (let m1 = upd_stats (\<lambda>s. s\<lparr>total_checks := total_checks s + 1,
                                last_check := Some (now_check env)\<rparr>) m;
          m2 = (if broken_torrents \<noteq> [] then
                  upd_stats (\<lambda>s. s\<lparr>OverallStats.broken_found :=
                                      OverallStats.broken_found s + int (length broken_torrents),
                                    last_broken_found := Some (now_broken env)\<rparr>)
                    (upd_current (\<lambda>c. c\<lparr>CheckStats.broken_found :=
                                           int (length broken_torrents)\<rparr>) m1)
                else m1);
          m3 = (if under_repair_torrents \<noteq> [] then
                  upd_stats (\<lambda>s. s\<lparr>OverallStats.under_repair_found :=
                                      OverallStats.under_repair_found s
                                      + int (length under_repair_torrents)\<rparr>)
                    (upd_current (\<lambda>c. c\<lparr>CheckStats.under_repair_found :=
                                           int (length under_repair_torrents)\<rparr>) m2)
                else m2);
          m4 = (if total_torrents (current_check (stats m3)) > 0 then
                  upd_current (\<lambda>c. c\<lparr>ok_torrents := total_torrents c
                                         - CheckStats.broken_found c
                                         - CheckStats.under_repair_found c\<rparr>) m3
                else m3);
          m5 = (if broken_torrents \<noteq> [] then
                  upd_current (\<lambda>c. c\<lparr>broken_hashes := broken_hashes c @ map hash broken_torrents,
                                       broken_names := broken_names c @ map name broken_torrents\<rparr>)
                    (emit (Log WARN ''BROKEN TORRENTS:'') m4)
                else m4);
          m6 = (if under_repair_torrents \<noteq> [] then
                  upd_current (\<lambda>c. c\<lparr>under_repair_hashes :=
                                         under_repair_hashes c @ map hash under_repair_torrents,
                                       under_repair_names :=
                                         under_repair_names c @ map name under_repair_torrents\<rparr>)
                    (emit (Log INFO ''UNDER REPAIR:'') m5)
                else m5)
      in m6)"

text \<open>The log line of a healthy cycle starts with a check mark, three bytes in UTF-8.\<close>

definition healthy_message :: string where
  "healthy_message = [CHR 0xE2, CHR 0x9C, CHR 0x93]
     @ '' No broken or under repair torrents found - library is healthy!''"

text \<open>The warnings of lines 572 and 577.\<close>

definition broken_fetch_warning :: string where
  "broken_fetch_warning =
     ''Warning: Failed to fetch broken torrents, continuing with under repair check''"

definition under_repair_fetch_warning :: string where
  "under_repair_fetch_warning =
     ''Warning: Failed to fetch under repair torrents, continuing with broken check''"

text \<open>
  Lines 542 to 557: the current statistics start afresh, and the total, the broken and
  the under-repair torrents are fetched, in this order.
\<close>

definition fetch_status ::
  "cycle_env \<Rightarrow> ZurgMonitor
     \<Rightarrow> TorrentInfo list option \<times> TorrentInfo list option \<times> ZurgMonitor" where
  "fetch_status env m =
     (let m0 = emit (Log INFO ''Starting torrent status check...'') m;
          m1 = upd_stats (\<lambda>s. s\<lparr>current_check := CheckStats_init\<rparr>) m0;
          (total_stats, m2) = get_total_torrent_stats (total_page env) m1;
          m3 = (case total_stats of
                  Some n \<Rightarrow> upd_current (\<lambda>c. c\<lparr>total_torrents := n\<rparr>) m2
                | None \<Rightarrow> m2);
          (broken_torrents, m4) =
             get_torrents_by_state ''status_broken'' (broken_result env) m3;
          (under_repair_torrents, m5) =
             get_torrents_by_state ''status_under_repair'' (under_repair_result env) m4
      in (broken_torrents, under_repair_torrents, m5))"

text \<open>
  Lines 642 to 678: repairs are triggered for the broken torrents, then for those under
  repair; the summary is shown and the current lists are saved as the previous ones.
\<close>

definition trigger_phase ::
  "cycle_env \<Rightarrow> TorrentInfo list \<Rightarrow> TorrentInfo list \<Rightarrow> ZurgMonitor \<Rightarrow> ZurgMonitor" where
  "trigger_phase env broken_list under_repair_list m =
     (let m1 = emit (Log INFO ((if dry_run m then ''Would trigger''
                                else ''Triggering'') @ '' repairs...'')) m;
          m2 = trigger_repairs (repair_outcome env) 0 broken_list m1;
          m3 = (if under_repair_list \<noteq> [] then
                  trigger_repairs (repair_outcome env) (length broken_list)
                    under_repair_list
                    (emit (Log INFO ((if dry_run m2 then ''Would re-trigger''
                                      else ''Re-triggering'')
                       @ '' repairs for under repair torrents...'')) m2)
                else m2);
          m4 = show_check_summary (emit (Log INFO ''Torrent status check completed'') m3)
      in save_previous (broken_hashes (current_check (stats m4))
                        @ under_repair_hashes (current_check (stats m4))) m4)"

text \<open>
  \<open>perform_check\<close>. When both category fetches failed the check is counted and the
  function returns (lines 563 to 568). Otherwise a failed category is replaced by the
  empty list with a warning (lines 570 to 579), the lists are counted, and either the
  library is healthy (lines 627 to 640) or repairs are triggered.
\<close>

definition perform_check :: "cycle_env \<Rightarrow> ZurgMonitor \<Rightarrow> ZurgMonitor" where
  "perform_check env m =
     (let (broken_torrents, under_repair_torrents, m5) = fetch_status env m
      in if broken_torrents = None \<and> under_repair_torrents = None then
           upd_stats (\<lambda>s. s\<lparr>total_checks := total_checks s + 1,
                            last_check := Some (now_check env)\<rparr>)
             (emit (Log ERROR ''Failed to retrieve torrent status - API calls failed'') m5)
         else
           let (broken_list, m6) =
                 (case broken_torrents of
                    None \<Rightarrow> ([], emit (Log WARN broken_fetch_warning) m5)
                  | Some ts \<Rightarrow> (ts, m5));
               (under_repair_list, m7) =
                 (case under_repair_torrents of
                    None \<Rightarrow> ([], emit (Log WARN under_repair_fetch_warning) m6)
                  | Some ts \<Rightarrow> (ts, m6));
               m8 = record_counts env broken_list under_repair_list m7
           in if broken_list = [] \<and> under_repair_list = [] then
                save_previous []
                  (show_check_summary
                    (emit (Log INFO ''Torrent status check completed'')
                      (emit (Log SUCCESS healthy_message) m8)))
              else trigger_phase env broken_list under_repair_list m8)"

section \<open>Cycle scheduler\<close>

text \<open>
  \<open>sys.exit(main())\<close> exits with the integer
  that \<open>main\<close> returns; an exception that nobody catches ends the interpreter with a
  traceback and exit code 1.
\<close>

datatype 'a outcome = Returned 'a | Raised exn

definition exit_code :: "int outcome \<Rightarrow> int" where
  "exit_code r = (case r of Returned n \<Rightarrow> n | Raised e \<Rightarrow> 1)"

text \<open>
  A run of the program meets the answer to the connectivity probe, the environment of
  the \<open>i\<close>-th cycle, and, in continuous mode, the interrupt signal, which arrives in the
  sleep that follows the last of \<open>cycles_before_interrupt\<close> cycles (at the head of the loop
  when that number is 0).
\<close>

record world =
  probe :: http_outcome
  cycle :: "nat \<Rightarrow> cycle_env"
  cycles_before_interrupt :: nat

definition run_once :: "world \<Rightarrow> ZurgMonitor \<Rightarrow> int outcome \<times> ZurgMonitor" where
  "run_once w m =
     (let m0 = (if dry_run m
                then emit (Log WARN ''DRY RUN MODE: No repairs will be triggered'') m else m);
          (connected, m1) = test_connection (probe w) m0
      in if \<not> connected
         then (Returned 1, emit (Log ERROR ''Cannot connect to Zurg - exiting'') m1)
         else
           let m2 = perform_check (cycle w 0) m1;
               m3 = show_overall_statistics m2
           in (Returned 0, m3))"

text \<open>
  The body of \<open>while True\<close>: a check, then \<open>time.sleep(check_interval * 60)\<close>. The loop
  has no exit of its own; it ends when the interrupt is raised, or when the sleep raises
  because the interval is negative.
\<close>

fun monitoring_loop ::
  "(nat \<Rightarrow> cycle_env) \<Rightarrow> nat \<Rightarrow> nat \<Rightarrow> ZurgMonitor \<Rightarrow> exn \<times> ZurgMonitor" where
  "monitoring_loop cyc i 0 m = (KeyboardInterrupt, m)"
| "monitoring_loop cyc i (Suc n) m =
     (let m1 = perform_check (cyc i) m
      in case sleep (of_int (check_interval (config m1) * 60)) m1 of
           (Some e, m2) \<Rightarrow> (e, m2)
         | (None, m2) \<Rightarrow> monitoring_loop cyc (Suc i) n m2)"

text \<open>
  The names bound at module level by the imports, assignments, classes and functions of
  zurg-monitor.py. A name that is neither local, nor in this list, nor a builtin raises
  \<open>NameError\<close> when it is evaluated; no builtin is called \<open>LogLevelOUTPUT\<close>.
\<close>

definition module_globals :: "string list" where
  "module_globals =
     [''argparse'', ''base64'', ''configparser'', ''json'', ''logging'', ''os'', ''re'',
      ''sys'', ''time'', ''dataclass'', ''field'', ''datetime'', ''Enum'', ''unescape'',
      ''RotatingFileHandler'', ''Path'', ''Dict'', ''List'', ''Optional'', ''Set'', ''quote'',
      ''urllib'', ''HTTPResponse'', ''VERSION'', ''SCRIPT_NAME'', ''LogLevel'', ''Colors'',
      ''TorrentInfo'', ''CheckStats'', ''OverallStats'', ''ZurgMonitor'', ''load_config'',
      ''main'']"

definition lookup_global :: "string \<Rightarrow> exn + unit" where
  "lookup_global nm = (if nm \<in> set module_globals then Inr () else Inl (NameError nm))"

text \<open>
  \<open>run_continuous\<close>. The \<open>except\<close> clauses log the interruption. The \<open>finally\<close> block
  shows the overall statistics, then evaluates the arguments of its last \<open>_log\<close> call,
  the second of which is the name \<open>LogLevelOUTPUT\<close> (line 876), and only then would
  return 0.
\<close>

definition run_continuous :: "world \<Rightarrow> ZurgMonitor \<Rightarrow> int outcome \<times> ZurgMonitor" where
  "run_continuous w m =
     (let m0 = (if dry_run m
                then emit (Log WARN ''DRY RUN MODE: No repairs will be triggered'') m else m);
          (connected, m1) = test_connection (probe w) m0
      in if \<not> connected
         then (Returned 1, emit (Log ERROR ''Cannot connect to Zurg - exiting'') m1)
         else
           let (e, m2) = monitoring_loop (cycle w) 0 (cycles_before_interrupt w) m1;
               m3 = (case e of
                       KeyboardInterrupt \<Rightarrow>
                         emit (Log WARN ''Monitoring loop interrupted by user'') m2
                     | _ \<Rightarrow> emit (Log WARN ''Monitoring loop interrupted'') m2);
               m4 = show_overall_statistics m3
           in case lookup_global ''LogLevelOUTPUT'' of
                Inl err \<Rightarrow> (Raised err, m4)
              | Inr _ \<Rightarrow> (Returned 0, emit (Log OUTPUT ''Monitoring stopped'') m4))"

subsection \<open>main\<close>

text \<open>
  The parsed command line, restricted to the options that reach the engine. An option
  that was not given is \<open>None\<close>.
\<close>

record Args =
  arg_zurg_url :: "string option"
  arg_check_interval :: "int option"
  arg_rate_limit :: "int option"
  arg_run_once :: bool
  arg_dry_run :: bool

text \<open>Python's truth value of an optional integer and of an optional string.\<close>

definition truthy_int :: "int option \<Rightarrow> bool" where
  "truthy_int x = (case x of None \<Rightarrow> False | Some i \<Rightarrow> i \<noteq> 0)"

definition truthy_str :: "string option \<Rightarrow> bool" where
  "truthy_str x = (case x of None \<Rightarrow> False | Some s \<Rightarrow> s \<noteq> [])"

text \<open>
  \<open>load_config\<close>: the command line overrides the configuration that the defaults and the
  configuration file give (\<open>file_config\<close>), option by option, where the option is truthy.
\<close>

definition load_config :: "Args \<Rightarrow> Config \<Rightarrow> Config" where
  "load_config args file_config =
     (let c1 = (if truthy_str (arg_zurg_url args)
                then file_config\<lparr>zurg_url := the (arg_zurg_url args)\<rparr> else file_config);
          c2 = (if truthy_int (arg_check_interval args)
                then c1\<lparr>check_interval := the (arg_check_interval args)\<rparr> else c1);
          c3 = (if truthy_int (arg_rate_limit args)
                then c2\<lparr>rate_limit_requests := the (arg_rate_limit args)\<rparr> else c2)
      in c3)"

text \<open>Lines 1021 to 1024: \<open>if args.check_interval and args.check_interval < 1\<close>.\<close>

definition check_interval_rejected :: "Args \<Rightarrow> bool" where
  "check_interval_rejected args =
     (truthy_int (arg_check_interval args) \<and> the (arg_check_interval args) < 1)"

definition main :: "Args \<Rightarrow> Config \<Rightarrow> world \<Rightarrow> int outcome \<times> event list" where
  "main args file_config w =
     (if check_interval_rejected args
      then (Returned 1, [Print ''Error: Check interval must be at least 1 minute''])
      else
        let cfg = load_config args file_config;
            monitor = ZurgMonitor_init cfg (arg_dry_run args);
            (r, m) = (if arg_run_once args then run_once w monitor
                      else run_continuous w monitor)
        in (r, trace m))"

section \<open>Observing a run\<close>

text \<open>
  The events that a step adds to the trace, the list that a cycle uses for a category
  (the fetched one, or the empty list in place of a failed fetch), what the three fetches
  of a cycle return, the monitor as the fetches and as the warnings about failed fetches
  leave it, the configurations whose delays \<open>time.sleep\<close> accepts, the monitor after a
  call of the rate limiter, the time that the next call of the rate limiter sleeps and the events
  it adds, and the events that belong to a call of \<open>trigger_repair\<close>: its first
  log line (in a dry run or not) and the POST request.
\<close>

definition new_events :: "ZurgMonitor \<Rightarrow> ZurgMonitor \<Rightarrow> event list" where
  "new_events m m' = drop (length (trace m)) (trace m')"

definition fetched :: "TorrentInfo list option \<Rightarrow> TorrentInfo list" where
  "fetched result = (case result of None \<Rightarrow> [] | Some ts \<Rightarrow> ts)"

definition after_fetch :: "cycle_env \<Rightarrow> ZurgMonitor \<Rightarrow> ZurgMonitor" where
  "after_fetch env m = snd (snd (fetch_status env m))"

definition total_fetch :: "cycle_env \<Rightarrow> ZurgMonitor \<Rightarrow> int option" where
  "total_fetch env m =
     fst (get_total_torrent_stats (total_page env)
            (upd_stats (\<lambda>s. s\<lparr>current_check := CheckStats_init\<rparr>)
               (emit (Log INFO ''Starting torrent status check...'') m)))"

definition broken_fetch :: "cycle_env \<Rightarrow> ZurgMonitor \<Rightarrow> TorrentInfo list option" where
  "broken_fetch env m = fst (fetch_status env m)"

definition under_repair_fetch :: "cycle_env \<Rightarrow> ZurgMonitor \<Rightarrow> TorrentInfo list option" where
  "under_repair_fetch env m = fst (snd (fetch_status env m))"

definition after_warnings :: "cycle_env \<Rightarrow> ZurgMonitor \<Rightarrow> ZurgMonitor" where
  "after_warnings env m =
     (let m6 = (case broken_fetch env m of
                  None \<Rightarrow> emit (Log WARN broken_fetch_warning) (after_fetch env m)
                | Some ts \<Rightarrow> after_fetch env m)
      in case under_repair_fetch env m of
           None \<Rightarrow> emit (Log WARN under_repair_fetch_warning) m6
         | Some ts \<Rightarrow> m6)"

definition sleeps_allowed :: "Config \<Rightarrow> bool" where
  "sleeps_allowed cfg = (0 \<le> rate_limit_delay cfg \<and> 0 \<le> rate_limit_backoff cfg)"

definition rate_limit_call :: "ZurgMonitor \<Rightarrow> ZurgMonitor" where
  "rate_limit_call m = snd (check_rate_limit m)"

definition rate_limit_sleep :: "ZurgMonitor \<Rightarrow> rat" where
  "rate_limit_sleep m =
     (if rate_limit_requests (config m) \<le> request_count m + 1
      then rate_limit_backoff (config m) else rate_limit_delay (config m))"

definition rate_limit_events :: "ZurgMonitor \<Rightarrow> event list" where
  "rate_limit_events m = (if 0 \<le> rate_limit_sleep m then [Sleep (rate_limit_sleep m)] else [])"

definition starts_with :: "string \<Rightarrow> string \<Rightarrow> bool" where
  "starts_with p s = (take (length p) s = p)"

fun is_trigger_event :: "event \<Rightarrow> bool" where
  "is_trigger_event (Request method url) = (method = ''POST'')"
| "is_trigger_event (Log level msg) =
     (starts_with ''[DRY RUN] Would trigger repair for: '' msg
      \<or> starts_with ''Triggering repair for torrent: '' msg)"
| "is_trigger_event _ = False"

definition trigger_log :: "bool \<Rightarrow> TorrentInfo \<Rightarrow> event" where
  "trigger_log dry t =
     (if dry then Log INFO (''[DRY RUN] Would trigger repair for: '' @ name t)
      else Log INFO (''Triggering repair for torrent: '' @ name t))"

definition repair_request :: "Config \<Rightarrow> TorrentInfo \<Rightarrow> event" where
  "repair_request cfg t = Request ''POST'' (zurg_url cfg @ ''/manage/'' @ hash t @ ''/repair'')"

section \<open>Example inputs\<close>

text \<open>
  The fixture of the specification's section 8: the previous check triggered A, B and C
  and saw A and B broken; the current check sees only C broken.
\<close>

definition example_stats :: OverallStats where
  "example_stats =
     OverallStats_init
       \<lparr>current_check := CheckStats_init\<lparr>CheckStats.broken_found := 1,
                           broken_hashes := [''C''], broken_names := [''c'']\<rparr>,
        previous_check_broken := [''A'', ''B''],
        previous_check_under_repair := [],
        previous_check_triggered := [''A'', ''B'', ''C'']\<rparr>"

definition example_torrent :: "string \<Rightarrow> string \<Rightarrow> string \<Rightarrow> TorrentInfo" where
  "example_torrent h n st = \<lparr>hash = h, name = n, state = st\<rparr>"

text \<open>
  A listing with three rows: the first two carry the same identifier in different letter
  case, and the third row's identifier appears once more in a link.
\<close>

definition example_page :: string where
  "example_page =
     ''<tr data-hash='' @ [CHR 0x22] @ replicate 40 (CHR ''A'') @ [CHR 0x22] @ ''>''
     @ ''<tr data-hash='' @ [CHR 0x22] @ replicate 40 (CHR ''a'') @ [CHR 0x22] @ ''>''
     @ ''<tr class=x data-hash='' @ [CHR 0x22] @ replicate 40 (CHR ''7'') @ [CHR 0x22] @ ''>''
     @ ''<a href='' @ [CHR 0x22] @ ''/manage/'' @ replicate 40 (CHR ''7'') @ ''/''
     @ [CHR 0x22] @ ''>x</a>''"

text \<open>A page that names a torrent in a management link only.\<close>

definition example_link_page :: string where
  "example_link_page =
     ''<a href='' @ [CHR 0x22] @ ''/manage/'' @ replicate 40 (CHR ''7'') @ ''/''
     @ [CHR 0x22] @ ''>x</a>''"

text \<open>
  A cycle in which the example listing is fetched and both categories are fetched and are
  empty.
\<close>

definition healthy_env :: cycle_env where
  "healthy_env =
     \<lparr>total_page = Some example_page, broken_result = Some [], under_repair_result = Some [],
      repair_outcome = (\<lambda>k. Response []), now_check = 100, now_broken = 101\<rparr>"

text \<open>A cycle in which all three fetches fail.\<close>

definition failing_env :: cycle_env where
  "failing_env =
     \<lparr>total_page = None, broken_result = None, under_repair_result = None,
      repair_outcome = (\<lambda>k. URLError ''timed out''), now_check = 100, now_broken = 101\<rparr>"

text \<open>
  A cycle in which the fetch of the broken category fails and two torrents are under
  repair; the first repair request is answered, the second is refused.
\<close>

definition partial_env :: cycle_env where
  "partial_env =
     \<lparr>total_page = None, broken_result = None,
      under_repair_result = Some [example_torrent ''aa'' ''first'' ''status_under_repair'',
                                  example_torrent ''bb'' ''second'' ''status_under_repair''],
      repair_outcome = (\<lambda>k. if k = 0 then Response [] else HTTPError 500 ''Internal Server Error''),
      now_check = 100, now_broken = 101\<rparr>"

text \<open>A continuous run interrupted during the sleep after its second cycle.\<close>

definition example_world :: world where
  "example_world =
     \<lparr>probe = Response ''ok'', cycle = (\<lambda>i. failing_env), cycles_before_interrupt = 2\<rparr>"

definition example_args :: Args where
  "example_args =
     \<lparr>arg_zurg_url = None, arg_check_interval = None, arg_rate_limit = None,
      arg_run_once = False, arg_dry_run = False\<rparr>"

section \<open>Properties\<close>

subsection \<open>Rate limiter\<close>

lemma check_rate_limit_below:
  "request_count m + 1 < rate_limit_requests (config m) \<Longrightarrow> 0 \<le> rate_limit_delay (config m) \<Longrightarrow>
   check_rate_limit m =
     (None, m\<lparr>request_count := request_count m + 1,
              trace := trace m @ [Sleep (rate_limit_delay (config m))]\<rparr>)"
  by (simp add: check_rate_limit_def sleep_def emit_def Let_def)

lemma rate_limit_call_below:
  "request_count m + 1 < rate_limit_requests (config m) \<Longrightarrow> 0 \<le> rate_limit_delay (config m) \<Longrightarrow>
   rate_limit_call m =
     m\<lparr>request_count := request_count m + 1,
       trace := trace m @ [Sleep (rate_limit_delay (config m))]\<rparr>"
  by (simp add: rate_limit_call_def check_rate_limit_below)

lemma short_delays_before_threshold:
  "request_count m = 0 \<Longrightarrow> int k < rate_limit_requests (config m) \<Longrightarrow>
   0 \<le> rate_limit_delay (config m) \<Longrightarrow>
   (rate_limit_call ^^ k) m =
     m\<lparr>request_count := int k,
       trace := trace m @ replicate k (Sleep (rate_limit_delay (config m)))\<rparr>"
proof (induction k)
  case 0
  then show ?case by simp
next
  case (Suc k)
  let ?mk = "(rate_limit_call ^^ k) m"
  from Suc have mk: "?mk = m\<lparr>request_count := int k,
       trace := trace m @ replicate k (Sleep (rate_limit_delay (config m)))\<rparr>"
    by simp
  have "request_count ?mk + 1 < rate_limit_requests (config ?mk)"
    "0 \<le> rate_limit_delay (config ?mk)"
    using Suc.prems by (simp_all add: mk)
  from rate_limit_call_below [OF this]
  show ?case by (simp add: mk replicate_append_same)
qed

text \<open>
  What the rate limiter does, for a threshold \<open>N \<ge> 1\<close>, a zero counter and delays that
  \<open>time.sleep\<close> accepts: the counter counts every call up to the threshold, the first
  \<open>N - 1\<close> calls sleep the short delay, and the \<open>N\<close>-th call itself sleeps the backoff
  and resets the counter.
\<close>

lemma rate_limit_backoff_on_Nth_call:
  assumes "request_count m = 0" and "rate_limit_requests (config m) = int N" and "0 < N"
      and "sleeps_allowed (config m)"
  shows "(\<forall>k < N. request_count ((rate_limit_call ^^ k) m) = int k)
       \<and> trace ((rate_limit_call ^^ N) m) =
           trace m @ replicate (N - 1) (Sleep (rate_limit_delay (config m)))
                   @ [Sleep (rate_limit_backoff (config m))]
       \<and> request_count ((rate_limit_call ^^ N) m) = 0"
proof -
  have ok: "0 \<le> rate_limit_delay (config m)" "0 \<le> rate_limit_backoff (config m)"
    using assms(4) by (simp_all add: sleeps_allowed_def)
  have below: "(rate_limit_call ^^ k) m =
      m\<lparr>request_count := int k,
        trace := trace m @ replicate k (Sleep (rate_limit_delay (config m)))\<rparr>"
    if "k < N" for k
    using short_delays_before_threshold [of m k] assms ok that by simp
  obtain n where N: "N = Suc n"
    using assms(3) by (cases N) auto
  let ?T = "trace m @ replicate n (Sleep (rate_limit_delay (config m)))"
  have mn: "(rate_limit_call ^^ n) m = m\<lparr>request_count := int n, trace := ?T\<rparr>"
    using below [of n] N by simp
  have "rate_limit_call (m\<lparr>request_count := int n, trace := ?T\<rparr>) =
      m\<lparr>request_count := 0, trace := ?T @ [Sleep (rate_limit_backoff (config m))]\<rparr>"
    using assms(2) N ok
    by (simp add: rate_limit_call_def check_rate_limit_def sleep_def emit_def Let_def)
  then have last: "(rate_limit_call ^^ N) m =
      m\<lparr>request_count := 0, trace := ?T @ [Sleep (rate_limit_backoff (config m))]\<rparr>"
    by (simp add: N mn)
  have counts: "\<forall>k < N. request_count ((rate_limit_call ^^ k) m) = int k"
    using below by simp
  have tr: "trace ((rate_limit_call ^^ N) m) =
           trace m @ replicate (N - 1) (Sleep (rate_limit_delay (config m)))
                   @ [Sleep (rate_limit_backoff (config m))]"
    by (subst last) (simp add: N)
  have rc: "request_count ((rate_limit_call ^^ N) m) = 0"
    by (simp add: last)
  from counts tr rc show ?thesis by blast
qed

text \<open>
  C3 fails on the code. With the default threshold of 10, which the option's help calls
  the "number of requests before backing off", the tenth call of the rate limiter sleeps
  the backoff of 5 seconds, before the tenth request is made, and resets the counter;
  the first nine calls sleep the short delay, and the eleventh call sleeps the short
  delay again, with the counter at 1.
\<close>

theorem rate_limit_tenth_call_backs_off:
  "trace ((rate_limit_call ^^ 10) (ZurgMonitor_init default_config False)) =
     replicate 9 (Sleep (1 / 2)) @ [Sleep 5]
   \<and> trace ((rate_limit_call ^^ 10) (ZurgMonitor_init default_config False)) ! 9
       \<noteq> Sleep (1 / 2)
   \<and> request_count ((rate_limit_call ^^ 9) (ZurgMonitor_init default_config False)) = 9
   \<and> request_count ((rate_limit_call ^^ 10) (ZurgMonitor_init default_config False)) = 0
   \<and> trace ((rate_limit_call ^^ 11) (ZurgMonitor_init default_config False)) ! 10
       = Sleep (1 / 2)
   \<and> trace ((rate_limit_call ^^ 11) (ZurgMonitor_init default_config False)) ! 10
       \<noteq> Sleep 5
   \<and> request_count ((rate_limit_call ^^ 11) (ZurgMonitor_init default_config False)) = 1"
  by (simp add: eval_nat_numeral rate_limit_call_def check_rate_limit_def sleep_def emit_def
      ZurgMonitor_init_def default_config_def Let_def)

subsection \<open>Comparison metrics\<close>

lemma count_if_length: "count_if P xs = length (filter P xs)"
  by (induction xs) (simp_all add: count_if_def)

lemma count_if_card: "distinct xs \<Longrightarrow> count_if P xs = card {x \<in> set xs. P x}"
  using distinct_card [of "filter P xs"] by (simp add: count_if_length)

text \<open>
  C1. For duplicate-free hash lists the comparison metrics that the check summary
  computes depend only on the sets of hashes and are the cardinalities of the
  specification's set formulas. The summary computes them exactly when the previous
  check triggered something.
\<close>

theorem comparison_set_formulas:
  assumes "distinct (previous_check_triggered s)"
      and "distinct (previous_check_broken s)"
      and "distinct (previous_check_under_repair s)"
      and "distinct (broken_hashes (current_check s))"
  shows "comparison s =
     (if previous_check_triggered s = [] then None
      else Some \<lparr>repaired = card (set (previous_check_triggered s)
                    - (set (broken_hashes (current_check s))
                       \<union> set (under_repair_hashes (current_check s)))),
                 moved_to_repair = card (set (previous_check_broken s)
                    \<inter> set (under_repair_hashes (current_check s))),
                 still_broken = card (set (previous_check_broken s)
                    \<inter> set (broken_hashes (current_check s))),
                 still_under_repair = card (set (previous_check_under_repair s)
                    \<inter> set (under_repair_hashes (current_check s))),
                 new_broken = card (set (broken_hashes (current_check s))
                    - set (previous_check_broken s)
                    - set (previous_check_under_repair s))\<rparr>)"
proof -
  have eqs:
    "\<And>A B C. {x \<in> A. x \<notin> B \<and> x \<notin> C} = A - (B \<union> C)"
    "\<And>A B. {x \<in> A. x \<in> B} = A \<inter> B"
    "\<And>A B C. {x \<in> A. x \<notin> B \<and> x \<notin> C} = A - B - C"
    by auto
  show ?thesis
    using assms
    apply (simp add: comparison_def Let_def count_if_card)
    apply (simp add: eqs(2))
    apply (intro conjI impI)
     apply (simp add: eqs(1))
    apply (simp add: eqs(3))
    done
qed

theorem comparison_set_formulas_witness:
  "distinct (previous_check_triggered example_stats)
   \<and> distinct (previous_check_broken example_stats)
   \<and> distinct (previous_check_under_repair example_stats)
   \<and> distinct (broken_hashes (current_check example_stats))
   \<and> comparison example_stats =
       Some \<lparr>repaired = 2, moved_to_repair = 0, still_broken = 0,
              still_under_repair = 0, new_broken = 1\<rparr>"
proof -
  have d: "distinct (previous_check_triggered example_stats)"
    "distinct (previous_check_broken example_stats)"
    "distinct (previous_check_under_repair example_stats)"
    "distinct (broken_hashes (current_check example_stats))"
    by (simp_all add: example_stats_def OverallStats_init_def CheckStats_init_def)
  have s1: "{''A'', ''B'', ''C''} - {''C''} = {''A'', ''B''}" by auto
  have s2: "{''C''} - {''A'', ''B''} = {''C''}" by auto
  from comparison_set_formulas [OF d] d show ?thesis
    by (simp add: example_stats_def OverallStats_init_def CheckStats_init_def s1 s2)
qed

subsection \<open>Connectivity probe\<close>

text \<open>
  C10. The connectivity probe succeeds exactly when the request is answered with a
  non-empty body. An answer with an empty body is a failed probe, with which both modes
  return 1 and the process exits with code 1, whereas \<open>trigger_repair\<close> counts every
  answer to its request as success, the empty one too (in a dry run it makes no request
  at all and reports success; when the rate limiter raises before the request it reports
  failure).
\<close>

lemma check_rate_limit_raises:
  "fst (check_rate_limit m) = (if 0 \<le> rate_limit_sleep m then None
     else Some (ValueError ''sleep length must be non-negative''))"
  by (simp add: check_rate_limit_def sleep_def rate_limit_sleep_def Let_def)

lemma rate_limit_sleep_emit: "rate_limit_sleep (emit e m) = rate_limit_sleep m"
  by (simp add: rate_limit_sleep_def emit_def)

theorem probe_needs_nonempty_body:
  "fst (test_connection outcome m) = (case outcome of Response b \<Rightarrow> b \<noteq> [] | _ \<Rightarrow> False)
   \<and> fst (test_connection (Response []) m) = False
   \<and> fst (run_once (w\<lparr>probe := Response []\<rparr>) m) = Returned 1
   \<and> fst (run_continuous (w\<lparr>probe := Response []\<rparr>) m) = Returned 1
   \<and> exit_code (fst (main args file_config (w\<lparr>probe := Response []\<rparr>))) = 1
   \<and> fst (trigger_repair hash_value nm outcome m)
       = (dry_run m \<or> (0 \<le> rate_limit_sleep m
                         \<and> (case outcome of Response b \<Rightarrow> True | _ \<Rightarrow> False)))
   \<and> fst (trigger_repair hash_value nm (Response []) m)
       = (dry_run m \<or> 0 \<le> rate_limit_sleep m)"
proof -
  have probe: "fst (test_connection outcome m)
      = (case outcome of Response b \<Rightarrow> b \<noteq> [] | _ \<Rightarrow> False)" for outcome m
    by (simp add: test_connection_def make_request_def truthy_bytes_def Let_def
        split: http_outcome.splits)
  have trig: "fst (trigger_repair hash_value nm outcome m)
       = (dry_run m \<or> (0 \<le> rate_limit_sleep m
                         \<and> (case outcome of Response b \<Rightarrow> True | _ \<Rightarrow> False)))" for outcome
  proof (cases "check_rate_limit (emit (Log INFO (''Triggering repair for torrent: '' @ nm)) m)")
    case (Pair e m2)
    with check_rate_limit_raises
      [of "emit (Log INFO (''Triggering repair for torrent: '' @ nm)) m"]
    have e: "e = (if 0 \<le> rate_limit_sleep m then None
        else Some (ValueError ''sleep length must be non-negative''))"
      by (simp add: rate_limit_sleep_emit)
    show ?thesis
      using Pair
      by (simp add: trigger_repair_def Let_def e make_request_def
          split: http_outcome.splits)
  qed
  have runs: "fst (run_once (w\<lparr>probe := Response []\<rparr>) m) = Returned 1"
    "fst (run_continuous (w\<lparr>probe := Response []\<rparr>) m) = Returned 1"
    "exit_code (fst (main args file_config (w\<lparr>probe := Response []\<rparr>))) = 1"
    by (simp_all add: test_connection_def make_request_def truthy_bytes_def run_once_def
      run_continuous_def main_def exit_code_def Let_def split: prod.splits)
  from probe [of outcome m] probe [of "Response []" m] runs trig [of outcome]
    trig [of "Response []"]
  show ?thesis by simp
qed

subsection \<open>Check-interval validation\<close>

text \<open>
  C7 fails at 0. The validation is guarded by the truth value of the option, and 0 is
  false: a check interval of 0 on the command line is not rejected, the configuration is
  loaded as if the option had not been given, and a single-check run whose probe succeeds
  exits with code 0.
\<close>

theorem check_interval_zero_accepted:
  "\<not> check_interval_rejected (args\<lparr>arg_check_interval := Some 0\<rparr>)
   \<and> load_config (args\<lparr>arg_check_interval := Some 0\<rparr>) file_config
       = load_config (args\<lparr>arg_check_interval := None\<rparr>) file_config
   \<and> exit_code (fst (main (args\<lparr>arg_check_interval := Some 0, arg_run_once := True\<rparr>)
        file_config (w\<lparr>probe := Response ''ok''\<rparr>))) = 0"
  by (simp add: check_interval_rejected_def truthy_int_def load_config_def main_def
      run_once_def test_connection_def make_request_def truthy_bytes_def exit_code_def
      Let_def split: prod.splits)

text \<open>Negative intervals are rejected, as the specification says.\<close>

lemma check_interval_negative_rejected:
  "i < 0 \<Longrightarrow> main (args\<lparr>arg_check_interval := Some i\<rparr>) file_config w
     = (Returned 1, [Print ''Error: Check interval must be at least 1 minute''])"
  by (simp add: check_interval_rejected_def truthy_int_def main_def)

subsection \<open>Continuous mode\<close>

lemma test_connection_ok:
  "body \<noteq> [] \<Longrightarrow> test_connection (Response body) m =
     (True, emit (Log SUCCESS ''Successfully connected to Zurg'')
              (emit (Request ''GET'' (zurg_url (config m) @ ''/stats'')) m))"
  by (simp add: test_connection_def make_request_def truthy_bytes_def Let_def)

lemma run_continuous_interrupted:
  assumes "probe w = Response body" and "body \<noteq> []"
  shows "\<exists>m3. run_continuous w m =
           (Raised (NameError ''LogLevelOUTPUT''), show_overall_statistics m3)"
proof -
  have ng: "lookup_global ''LogLevelOUTPUT'' = Inl (NameError ''LogLevelOUTPUT'')"
    by (simp add: lookup_global_def module_globals_def)
  let ?m0 = "if dry_run m
             then emit (Log WARN ''DRY RUN MODE: No repairs will be triggered'') m else m"
  let ?m1 = "emit (Log SUCCESS ''Successfully connected to Zurg'')
              (emit (Request ''GET'' (zurg_url (config ?m0) @ ''/stats'')) ?m0)"
  obtain e m2 where loop:
    "monitoring_loop (cycle w) 0 (cycles_before_interrupt w) ?m1 = (e, m2)"
    by (cases "monitoring_loop (cycle w) 0 (cycles_before_interrupt w) ?m1")
  have "run_continuous w m =
     (Raised (NameError ''LogLevelOUTPUT''),
      show_overall_statistics
        (case e of KeyboardInterrupt \<Rightarrow>
                     emit (Log WARN ''Monitoring loop interrupted by user'') m2
                 | _ \<Rightarrow> emit (Log WARN ''Monitoring loop interrupted'') m2))"
    unfolding run_continuous_def Let_def
    using assms loop by (simp add: test_connection_ok ng)
  then show ?thesis by blast
qed

text \<open>
  C2 fails on the exit code. When the probe has succeeded and the loop is interrupted,
  the final overall statistics are emitted (they are the last event of the run), but the
  statement after them in the \<open>finally\<close> block evaluates the unbound name
  \<open>LogLevelOUTPUT\<close>: \<open>run_continuous\<close> raises \<open>NameError\<close> instead of returning 0, and the
  process exits with code 1.
\<close>

theorem continuous_interrupt_exit:
  assumes "probe w = Response body" and "body \<noteq> []"
  shows "fst (run_continuous w m) = Raised (NameError ''LogLevelOUTPUT'')
       \<and> exit_code (fst (run_continuous w m)) = 1
       \<and> (let m' = snd (run_continuous w m); s = stats m' in
            last (trace m') = OverallStatistics (total_checks s) (OverallStats.broken_found s)
              (OverallStats.under_repair_found s) (OverallStats.repairs_triggered s)
              (last_check s) (last_broken_found s))
       \<and> (\<not> check_interval_rejected args \<and> \<not> arg_run_once args
            \<longrightarrow> exit_code (fst (main args file_config w)) = 1)"
proof -
  obtain m3 where rc: "run_continuous w m =
      (Raised (NameError ''LogLevelOUTPUT''), show_overall_statistics m3)"
    using run_continuous_interrupted [OF assms] by blast
  obtain m4 where rc': "run_continuous w (ZurgMonitor_init (load_config args file_config)
         (arg_dry_run args)) =
      (Raised (NameError ''LogLevelOUTPUT''), show_overall_statistics m4)"
    using run_continuous_interrupted [OF assms] by blast
  have tr: "(let m' = snd (run_continuous w m); s = stats m' in
            last (trace m') = OverallStatistics (total_checks s) (OverallStats.broken_found s)
              (OverallStats.under_repair_found s) (OverallStats.repairs_triggered s)
              (last_check s) (last_broken_found s))"
    by (simp add: rc show_overall_statistics_def emit_def Let_def)
  have mn: "\<not> check_interval_rejected args \<and> \<not> arg_run_once args
            \<longrightarrow> exit_code (fst (main args file_config w)) = 1"
    by (simp add: main_def Let_def exit_code_def rc')
  from rc tr mn show ?thesis by (simp add: exit_code_def)
qed

theorem continuous_interrupt_exit_witness:
  "probe example_world = Response ''ok'' \<and> ''ok'' \<noteq> []
   \<and> fst (run_continuous example_world (ZurgMonitor_init default_config False))
       = Raised (NameError ''LogLevelOUTPUT'')
   \<and> \<not> check_interval_rejected example_args \<and> \<not> arg_run_once example_args
   \<and> exit_code (fst (main example_args default_config example_world)) = 1"
proof -
  have p: "probe example_world = Response ''ok''" by (simp add: example_world_def)
  have b: "''ok'' \<noteq> []" by simp
  have a: "\<not> check_interval_rejected example_args \<and> \<not> arg_run_once example_args"
    by (simp add: example_args_def check_interval_rejected_def truthy_int_def)
  from continuous_interrupt_exit [OF p b, of "ZurgMonitor_init default_config False"
      example_args default_config] p a
  show ?thesis by simp
qed

subsection \<open>What each step does to the parts of the monitor\<close>

lemma emit_proj:
  "stats (emit e m) = stats m" "config (emit e m) = config m"
  "dry_run (emit e m) = dry_run m" "request_count (emit e m) = request_count m"
  "trace (emit e m) = trace m @ [e]"
  by (simp_all add: emit_def)

lemma upd_stats_proj:
  "stats (upd_stats f m) = f (stats m)" "config (upd_stats f m) = config m"
  "dry_run (upd_stats f m) = dry_run m" "request_count (upd_stats f m) = request_count m"
  "trace (upd_stats f m) = trace m"
  by (simp_all add: upd_stats_def)

lemma upd_current_proj:
  "stats (upd_current f m) = (stats m)\<lparr>current_check := f (current_check (stats m))\<rparr>"
  "config (upd_current f m) = config m" "dry_run (upd_current f m) = dry_run m"
  "request_count (upd_current f m) = request_count m"
  "trace (upd_current f m) = trace m"
  by (simp_all add: upd_current_def upd_stats_def)

lemma check_rate_limit_proj:
  "stats (snd (check_rate_limit m)) = stats m" "config (snd (check_rate_limit m)) = config m"
  "dry_run (snd (check_rate_limit m)) = dry_run m"
  "trace (snd (check_rate_limit m)) = trace m @ rate_limit_events m"
  by (simp_all add: check_rate_limit_def sleep_def emit_def Let_def rate_limit_sleep_def
      rate_limit_events_def)

lemma rate_limit_events_quiet: "filter is_trigger_event (rate_limit_events m) = []"
  by (simp add: rate_limit_events_def)

lemma sleeps_allowed_sleep: "sleeps_allowed (config m) \<Longrightarrow> 0 \<le> rate_limit_sleep m"
  by (simp add: sleeps_allowed_def rate_limit_sleep_def)

lemma check_rate_limit_allowed: "sleeps_allowed (config m) \<Longrightarrow> fst (check_rate_limit m) = None"
  by (simp add: check_rate_limit_raises sleeps_allowed_sleep)

lemmas step_proj = emit_proj upd_stats_proj upd_current_proj check_rate_limit_proj

lemma get_total_torrent_stats_proj:
  "stats (snd (get_total_torrent_stats page m)) = stats m"
  "config (snd (get_total_torrent_stats page m)) = config m"
  "dry_run (snd (get_total_torrent_stats page m)) = dry_run m"
  by (cases "check_rate_limit m"; cases "fst (check_rate_limit m)";
      use check_rate_limit_proj [of m] in
        \<open>simp add: get_total_torrent_stats_def Let_def emit_proj split: option.splits\<close>)+

lemma get_total_torrent_stats_trace:
  "\<exists>X. trace (snd (get_total_torrent_stats page m)) = trace m @ X
       \<and> filter is_trigger_event X = []"
  by (cases "check_rate_limit m"; cases "fst (check_rate_limit m)";
      use check_rate_limit_proj [of m] rate_limit_events_quiet [of m] in
        \<open>simp add: get_total_torrent_stats_def Let_def emit_proj split: option.splits\<close>)

lemma get_torrents_by_state_proj:
  "stats (snd (get_torrents_by_state st result m)) = stats m"
  "config (snd (get_torrents_by_state st result m)) = config m"
  "dry_run (snd (get_torrents_by_state st result m)) = dry_run m"
  by (cases "check_rate_limit m"; cases "fst (check_rate_limit m)";
      use check_rate_limit_proj [of m] in
        \<open>simp add: get_torrents_by_state_def Let_def emit_proj\<close>)+

lemma get_torrents_by_state_trace:
  "\<exists>X. trace (snd (get_torrents_by_state st result m)) = trace m @ X
       \<and> filter is_trigger_event X = []"
  by (cases "check_rate_limit m"; cases "fst (check_rate_limit m)";
      use check_rate_limit_proj [of m] rate_limit_events_quiet [of m] in
        \<open>simp add: get_torrents_by_state_def Let_def emit_proj\<close>)

lemma fetch_status_eq:
  "fetch_status env m = (broken_fetch env m, under_repair_fetch env m, after_fetch env m)"
  by (simp add: broken_fetch_def under_repair_fetch_def after_fetch_def)

lemma fetch_status_stats:
  "stats (after_fetch env m) =
     (stats m)\<lparr>current_check := CheckStats_init
        \<lparr>total_torrents := (case total_fetch env m of None \<Rightarrow> 0 | Some n \<Rightarrow> n)\<rparr>\<rparr>"
  by (simp add: after_fetch_def fetch_status_def total_fetch_def Let_def case_prod_beta
      get_total_torrent_stats_proj get_torrents_by_state_proj step_proj CheckStats_init_def
      split: option.splits)

lemma fetch_status_fixed:
  "config (after_fetch env m) = config m"
  "dry_run (after_fetch env m) = dry_run m"
  by (simp_all add: after_fetch_def fetch_status_def Let_def case_prod_beta
      get_total_torrent_stats_proj get_torrents_by_state_proj step_proj
      split: option.splits)

lemma fetch_status_trace:
  "\<exists>X. trace (after_fetch env m) = trace m @ X \<and> filter is_trigger_event X = []"
proof -
  let ?m1 = "upd_stats (\<lambda>s. s\<lparr>current_check := CheckStats_init\<rparr>)
               (emit (Log INFO ''Starting torrent status check...'') m)"
  let ?p = "get_total_torrent_stats (total_page env) ?m1"
  let ?m3 = "case fst ?p of
               Some n \<Rightarrow> upd_current (\<lambda>c. c\<lparr>total_torrents := n\<rparr>) (snd ?p)
             | None \<Rightarrow> snd ?p"
  let ?q = "get_torrents_by_state ''status_broken'' (broken_result env) ?m3"
  let ?r = "get_torrents_by_state ''status_under_repair'' (under_repair_result env) (snd ?q)"
  have af: "after_fetch env m = snd ?r"
    by (simp add: after_fetch_def fetch_status_def Let_def case_prod_beta)
  obtain X1 where X1: "trace (snd ?p) = trace ?m1 @ X1" "filter is_trigger_event X1 = []"
    using get_total_torrent_stats_trace by blast
  have t3: "trace ?m3 = trace (snd ?p)"
    by (simp add: step_proj split: option.splits)
  obtain X2 where X2: "trace (snd ?q) = trace ?m3 @ X2" "filter is_trigger_event X2 = []"
    using get_torrents_by_state_trace by blast
  obtain X3 where X3: "trace (snd ?r) = trace (snd ?q) @ X3" "filter is_trigger_event X3 = []"
    using get_torrents_by_state_trace by blast
  have "trace (after_fetch env m)
      = trace m @ ([Log INFO ''Starting torrent status check...''] @ X1 @ X2 @ X3)"
    by (simp only: af X3(1) X2(1) t3 X1(1) step_proj append_assoc)
  moreover have "filter is_trigger_event
      ([Log INFO ''Starting torrent status check...''] @ X1 @ X2 @ X3) = []"
    by (simp add: X1(2) X2(2) X3(2) starts_with_def)
  ultimately show ?thesis by blast
qed

text \<open>With delays that \<open>time.sleep\<close> accepts, the fetches return what the environment gives.\<close>

lemma fetches_when_sleeps_allowed:
  assumes "sleeps_allowed (config m)"
  shows "total_fetch env m = map_option count_total (total_page env)"
    and "broken_fetch env m = broken_result env"
    and "under_repair_fetch env m = under_repair_result env"
proof -
  have total: "fst (get_total_torrent_stats page m') = map_option count_total page"
    if "config m' = config m" for page m'
    using check_rate_limit_allowed [of m'] assms that
    by (cases "check_rate_limit m'")
       (simp add: get_total_torrent_stats_def Let_def split: option.splits)
  have cat: "fst (get_torrents_by_state st result m') = result"
    if "config m' = config m" for st result m'
    using check_rate_limit_allowed [of m'] assms that
    by (cases "check_rate_limit m'") (simp add: get_torrents_by_state_def Let_def)
  show "total_fetch env m = map_option count_total (total_page env)"
    by (simp add: total_fetch_def total step_proj)
  show "broken_fetch env m = broken_result env"
    by (simp add: broken_fetch_def fetch_status_def Let_def case_prod_beta cat
        get_total_torrent_stats_proj step_proj split: option.splits)
  show "under_repair_fetch env m = under_repair_result env"
    by (simp add: under_repair_fetch_def fetch_status_def Let_def case_prod_beta cat
        get_total_torrent_stats_proj get_torrents_by_state_proj step_proj
        split: option.splits)
qed

lemma count_total_nonneg: "0 \<le> count_total html_content"
  by (simp add: count_total_def Let_def)

lemma total_fetch_nonneg: "total_fetch env m = Some n \<Longrightarrow> 0 \<le> n"
  by (cases "check_rate_limit (upd_stats (\<lambda>s. s\<lparr>current_check := CheckStats_init\<rparr>)
               (emit (Log INFO ''Starting torrent status check...'') m))")
     (auto simp: total_fetch_def get_total_torrent_stats_def Let_def count_total_nonneg
        split: option.splits)

lemma record_counts_fixed:
  "config (record_counts env bs us m) = config m"
  "dry_run (record_counts env bs us m) = dry_run m"
  by (simp_all add: record_counts_def Let_def step_proj)

lemma record_counts_trace:
  "trace (record_counts env bs us m) =
     trace m @ (if bs \<noteq> [] then [Log WARN ''BROKEN TORRENTS:''] else [])
             @ (if us \<noteq> [] then [Log INFO ''UNDER REPAIR:''] else [])"
  by (simp add: record_counts_def Let_def step_proj)

lemma record_counts_counters:
  "total_checks (stats (record_counts env bs us m)) = total_checks (stats m) + 1"
  "OverallStats.broken_found (stats (record_counts env bs us m))
     = OverallStats.broken_found (stats m) + int (length bs)"
  "OverallStats.under_repair_found (stats (record_counts env bs us m))
     = OverallStats.under_repair_found (stats m) + int (length us)"
  "OverallStats.repairs_triggered (stats (record_counts env bs us m))
     = OverallStats.repairs_triggered (stats m)"
  by (simp_all add: record_counts_def Let_def step_proj)

lemma record_counts_lists:
  "broken_hashes (current_check (stats (record_counts env bs us m)))
     = broken_hashes (current_check (stats m)) @ map hash bs"
  "under_repair_hashes (current_check (stats (record_counts env bs us m)))
     = under_repair_hashes (current_check (stats m)) @ map hash us"
  by (simp_all add: record_counts_def Let_def step_proj)

subsection \<open>Triggering\<close>

lemma trigger_repair_fixed:
  "stats (snd (trigger_repair h n outcome m)) = stats m"
  "config (snd (trigger_repair h n outcome m)) = config m"
  "dry_run (snd (trigger_repair h n outcome m)) = dry_run m"
  by (cases "check_rate_limit (emit (Log INFO (''Triggering repair for torrent: '' @ n)) m)";
      cases "fst (check_rate_limit
        (emit (Log INFO (''Triggering repair for torrent: '' @ n)) m))";
      use check_rate_limit_proj
        [of "emit (Log INFO (''Triggering repair for torrent: '' @ n)) m"] in
        \<open>simp add: trigger_repair_def make_request_def Let_def emit_proj
           split: http_outcome.splits\<close>)+

lemma trigger_repair_trace:
  "\<exists>X. trace (snd (trigger_repair (hash t) (name t) outcome m)) = trace m @ X
       \<and> trigger_log (dry_run m) t \<in> set X
       \<and> (dry_run m \<or> \<not> sleeps_allowed (config m) \<or> repair_request (config m) t \<in> set X)"
proof -
  let ?m1 = "emit (Log INFO (''Triggering repair for torrent: '' @ name t)) m"
  have allowed: "fst (check_rate_limit ?m1) = None" if "sleeps_allowed (config m)"
    using check_rate_limit_allowed [of ?m1] that by (simp add: emit_proj)
  show ?thesis
    using check_rate_limit_proj [of ?m1] allowed
    by (cases "check_rate_limit ?m1"; cases "fst (check_rate_limit ?m1)")
       (auto simp: trigger_repair_def make_request_def Let_def emit_proj trigger_log_def
          repair_request_def split: http_outcome.splits)
qed

lemma trigger_repairs_fixed:
  "config (trigger_repairs outcome k ts m) = config m"
  "dry_run (trigger_repairs outcome k ts m) = dry_run m"
  by (induction ts arbitrary: k m)
     (simp_all add: Let_def case_prod_beta step_proj trigger_repair_fixed)

text \<open>
  The trigger loop changes the statistics only in the two counters of triggered
  repairs, which it raises by the same amount, at most once per torrent.
\<close>

lemma trigger_repairs_stats:
  "\<exists>j. 0 \<le> j \<and> j \<le> int (length ts)
     \<and> stats (trigger_repairs outcome k ts m) =
         (stats m)\<lparr>OverallStats.repairs_triggered :=
                      OverallStats.repairs_triggered (stats m) + j,
                   current_check := (current_check (stats m))
                     \<lparr>CheckStats.repairs_triggered :=
                        CheckStats.repairs_triggered (current_check (stats m)) + j\<rparr>\<rparr>"
proof (induction ts arbitrary: k m)
  case Nil
  show ?case by (intro exI [of _ 0]) simp
next
  case (Cons t ts)
  let ?p = "trigger_repair (hash t) (name t) (outcome k) m"
  let ?m3 = "emit (Sleep (1 / 2))
      (if fst ?p
       then upd_stats (\<lambda>s. s\<lparr>OverallStats.repairs_triggered :=
                                OverallStats.repairs_triggered s + 1\<rparr>)
              (upd_current (\<lambda>c. c\<lparr>CheckStats.repairs_triggered :=
                                     CheckStats.repairs_triggered c + 1\<rparr>) (snd ?p))
       else snd ?p)"
  have step: "trigger_repairs outcome k (t # ts) m = trigger_repairs outcome (Suc k) ts ?m3"
    by (simp add: Let_def case_prod_beta)
  obtain j where j: "0 \<le> j" "j \<le> int (length ts)"
    "stats (trigger_repairs outcome (Suc k) ts ?m3) =
         (stats ?m3)\<lparr>OverallStats.repairs_triggered :=
                      OverallStats.repairs_triggered (stats ?m3) + j,
                   current_check := (current_check (stats ?m3))
                     \<lparr>CheckStats.repairs_triggered :=
                        CheckStats.repairs_triggered (current_check (stats ?m3)) + j\<rparr>\<rparr>"
    using Cons.IH [of "Suc k" ?m3] by blast
  show ?case
  proof (cases "fst ?p")
    case True
    then have "stats ?m3 = (stats m)\<lparr>OverallStats.repairs_triggered :=
                      OverallStats.repairs_triggered (stats m) + 1,
                   current_check := (current_check (stats m))
                     \<lparr>CheckStats.repairs_triggered :=
                        CheckStats.repairs_triggered (current_check (stats m)) + 1\<rparr>\<rparr>"
      by (simp add: step_proj trigger_repair_fixed)
    with j step show ?thesis
      by (intro exI [of _ "j + 1"]) simp
  next
    case False
    then have "stats ?m3 = stats m"
      by (simp add: step_proj trigger_repair_fixed)
    with j step show ?thesis
      by (intro exI [of _ j]) simp
  qed
qed

lemma trigger_repairs_trace:
  "\<exists>X. trace (trigger_repairs outcome k ts m) = trace m @ X
       \<and> (\<forall>t \<in> set ts. trigger_log (dry_run m) t \<in> set X
             \<and> (dry_run m \<or> \<not> sleeps_allowed (config m)
                 \<or> repair_request (config m) t \<in> set X))"
proof (induction ts arbitrary: k m)
  case Nil
  show ?case by simp
next
  case (Cons t ts)
  let ?p = "trigger_repair (hash t) (name t) (outcome k) m"
  let ?m2 = "if fst ?p
       then upd_stats (\<lambda>s. s\<lparr>OverallStats.repairs_triggered :=
                                OverallStats.repairs_triggered s + 1\<rparr>)
              (upd_current (\<lambda>c. c\<lparr>CheckStats.repairs_triggered :=
                                     CheckStats.repairs_triggered c + 1\<rparr>) (snd ?p))
       else snd ?p"
  let ?m3 = "emit (Sleep (1 / 2)) ?m2"
  have step: "trigger_repairs outcome k (t # ts) m = trigger_repairs outcome (Suc k) ts ?m3"
    by (simp add: Let_def case_prod_beta)
  obtain Y where Y: "trace (snd ?p) = trace m @ Y" "trigger_log (dry_run m) t \<in> set Y"
    "dry_run m \<or> \<not> sleeps_allowed (config m) \<or> repair_request (config m) t \<in> set Y"
    using trigger_repair_trace [of t "outcome k" m] by blast
  have m3: "trace ?m3 = trace m @ Y @ [Sleep (1 / 2)]" "dry_run ?m3 = dry_run m"
    "config ?m3 = config m"
    by (simp_all add: step_proj trigger_repair_fixed Y(1))
  obtain X where X: "trace (trigger_repairs outcome (Suc k) ts ?m3) = trace ?m3 @ X"
    "\<forall>t \<in> set ts. trigger_log (dry_run ?m3) t \<in> set X
             \<and> (dry_run ?m3 \<or> \<not> sleeps_allowed (config ?m3)
                 \<or> repair_request (config ?m3) t \<in> set X)"
    using Cons.IH [of "Suc k" ?m3] by blast
  have "trace (trigger_repairs outcome k (t # ts) m) = trace m @ (Y @ [Sleep (1 / 2)] @ X)"
    by (subst step) (simp add: X(1) m3(1))
  moreover have "\<forall>u \<in> set (t # ts). trigger_log (dry_run m) u \<in> set (Y @ [Sleep (1 / 2)] @ X)
             \<and> (dry_run m \<or> \<not> sleeps_allowed (config m)
                 \<or> repair_request (config m) u \<in> set (Y @ [Sleep (1 / 2)] @ X))"
    using Y(2,3) X(2) by (auto simp: m3(2,3))
  ultimately show ?case by blast
qed

subsection \<open>The phases of a check\<close>

lemma show_check_summary_proj:
  "stats (show_check_summary m) = stats m" "config (show_check_summary m) = config m"
  "dry_run (show_check_summary m) = dry_run m"
  "trace (show_check_summary m) =
     trace m @ [CheckSummary (current_check (stats m)) (comparison (stats m))]"
  by (simp_all add: show_check_summary_def step_proj)

lemma save_previous_proj:
  "stats (save_previous triggered m) =
     (stats m)\<lparr>previous_check_broken := broken_hashes (current_check (stats m)),
               previous_check_under_repair := under_repair_hashes (current_check (stats m)),
               previous_check_triggered := triggered\<rparr>"
  "config (save_previous triggered m) = config m"
  "dry_run (save_previous triggered m) = dry_run m"
  "trace (save_previous triggered m) = trace m"
  by (simp_all add: save_previous_def step_proj)

lemmas phase_proj = step_proj show_check_summary_proj save_previous_proj

lemma trigger_phase_stats:
  "\<exists>j. 0 \<le> j \<and> j \<le> int (length bs) + int (length us)
     \<and> stats (trigger_phase env bs us m) =
         (stats m)\<lparr>OverallStats.repairs_triggered :=
                      OverallStats.repairs_triggered (stats m) + j,
                   current_check := (current_check (stats m))
                     \<lparr>CheckStats.repairs_triggered :=
                        CheckStats.repairs_triggered (current_check (stats m)) + j\<rparr>,
                   previous_check_broken := broken_hashes (current_check (stats m)),
                   previous_check_under_repair := under_repair_hashes (current_check (stats m)),
                   previous_check_triggered := broken_hashes (current_check (stats m))
                      @ under_repair_hashes (current_check (stats m))\<rparr>"
proof -
  let ?m1 = "emit (Log INFO ((if dry_run m then ''Would trigger''
                                else ''Triggering'') @ '' repairs...'')) m"
  let ?m2 = "trigger_repairs (repair_outcome env) 0 bs ?m1"
  let ?e = "emit (Log INFO ((if dry_run ?m2 then ''Would re-trigger''
                                      else ''Re-triggering'')
                       @ '' repairs for under repair torrents...'')) ?m2"
  let ?m3 = "if us \<noteq> [] then
                  trigger_repairs (repair_outcome env) (length bs) us ?e
                else ?m2"
  let ?bump = "\<lambda>j s. s\<lparr>OverallStats.repairs_triggered :=
                      OverallStats.repairs_triggered s + j,
                   current_check := (current_check s)
                     \<lparr>CheckStats.repairs_triggered :=
                        CheckStats.repairs_triggered (current_check s) + j\<rparr>\<rparr>"
  obtain j1 where j1: "0 \<le> j1" "j1 \<le> int (length bs)" "stats ?m2 = ?bump j1 (stats ?m1)"
    using trigger_repairs_stats [of bs "repair_outcome env" 0 ?m1] by blast
  obtain j2 where j2: "0 \<le> j2" "j2 \<le> int (length us)"
     "stats (trigger_repairs (repair_outcome env) (length bs) us ?e) = ?bump j2 (stats ?e)"
    using trigger_repairs_stats [of us "repair_outcome env" "length bs" ?e] by blast
  have m1: "stats ?m1 = stats m" by (simp add: step_proj)
  have e: "stats ?e = stats ?m2" by (simp only: emit_proj)
  have "\<exists>j. 0 \<le> j \<and> j \<le> int (length bs) + int (length us) \<and> stats ?m3 = ?bump j (stats m)"
  proof (cases "us = []")
    case True
    with j1 m1 show ?thesis by (intro exI [of _ j1]) simp
  next
    case False
    then have "stats ?m3 = ?bump (j1 + j2) (stats m)"
      by (simp add: j2(3) e j1(3) m1)
    with j1 j2 show ?thesis by (intro exI [of _ "j1 + j2"]) simp
  qed
  then obtain j where j: "0 \<le> j" "j \<le> int (length bs) + int (length us)"
    "stats ?m3 = ?bump j (stats m)" by blast
  have "stats (trigger_phase env bs us m) =
      (?bump j (stats m))\<lparr>previous_check_broken := broken_hashes (current_check (stats m)),
                   previous_check_under_repair := under_repair_hashes (current_check (stats m)),
                   previous_check_triggered := broken_hashes (current_check (stats m))
                      @ under_repair_hashes (current_check (stats m))\<rparr>"
    unfolding trigger_phase_def Let_def
    by (simp only: save_previous_proj show_check_summary_proj emit_proj j(3)) simp
  with j(1,2) show ?thesis by (intro exI [of _ j]) simp
qed

lemma in_set_last_of_two: "e \<in> set (as @ bs @ cs @ [d, e])"
  by simp

lemma in_set_last_of_three: "e \<in> set (as @ [c, d, e])"
  by simp

lemma trigger_phase_trace:
  "\<exists>X. trace (trigger_phase env bs us m) = trace m @ X
       \<and> (\<forall>t \<in> set bs \<union> set us. trigger_log (dry_run m) t \<in> set X
             \<and> (dry_run m \<or> \<not> sleeps_allowed (config m)
                 \<or> repair_request (config m) t \<in> set X))
       \<and> (\<exists>cs cmp. CheckSummary cs cmp \<in> set X)"
proof -
  let ?m1 = "emit (Log INFO ((if dry_run m then ''Would trigger''
                                else ''Triggering'') @ '' repairs...'')) m"
  let ?m2 = "trigger_repairs (repair_outcome env) 0 bs ?m1"
  let ?e = "emit (Log INFO ((if dry_run ?m2 then ''Would re-trigger''
                                      else ''Re-triggering'')
                       @ '' repairs for under repair torrents...'')) ?m2"
  let ?m3 = "if us \<noteq> [] then
                  trigger_repairs (repair_outcome env) (length bs) us ?e
                else ?m2"
  have fixed1: "dry_run ?m1 = dry_run m" "config ?m1 = config m"
    by (simp_all add: step_proj)
  have fixed2: "dry_run ?e = dry_run m" "config ?e = config m"
    by (simp_all only: emit_proj trigger_repairs_fixed fixed1)
  obtain X1 where X1: "trace ?m2 = trace ?m1 @ X1"
    "\<forall>t \<in> set bs. trigger_log (dry_run m) t \<in> set X1
             \<and> (dry_run m \<or> \<not> sleeps_allowed (config m)
                 \<or> repair_request (config m) t \<in> set X1)"
    using trigger_repairs_trace [of "repair_outcome env" 0 bs ?m1] fixed1 by auto
  obtain X2 where X2: "trace (trigger_repairs (repair_outcome env) (length bs) us ?e)
       = trace ?e @ X2"
    "\<forall>t \<in> set us. trigger_log (dry_run m) t \<in> set X2
             \<and> (dry_run m \<or> \<not> sleeps_allowed (config m)
                 \<or> repair_request (config m) t \<in> set X2)"
    using trigger_repairs_trace [of "repair_outcome env" "length bs" us ?e] fixed2 by auto
  have "\<exists>X3. trace ?m3 = trace ?m2 @ X3
       \<and> (\<forall>t \<in> set us. trigger_log (dry_run m) t \<in> set X3
             \<and> (dry_run m \<or> \<not> sleeps_allowed (config m)
                 \<or> repair_request (config m) t \<in> set X3))"
  proof (cases "us = []")
    case True
    then show ?thesis by simp
  next
    case False
    then have "trace ?m3 = trace ?m2 @ ([Log INFO ((if dry_run ?m2 then ''Would re-trigger''
                                      else ''Re-triggering'')
                       @ '' repairs for under repair torrents...'')] @ X2)"
      by (simp add: X2(1) emit_proj)
    with X2(2) show ?thesis by (metis Un_iff set_append)
  qed
  then obtain X3 where X3: "trace ?m3 = trace ?m2 @ X3"
    "\<forall>t \<in> set us. trigger_log (dry_run m) t \<in> set X3
             \<and> (dry_run m \<or> \<not> sleeps_allowed (config m)
                 \<or> repair_request (config m) t \<in> set X3)" by blast
  let ?X = "[Log INFO ((if dry_run m then ''Would trigger''
                                else ''Triggering'') @ '' repairs...'')] @ X1 @ X3
            @ [Log INFO ''Torrent status check completed'',
               CheckSummary (current_check (stats ?m3)) (comparison (stats ?m3))]"
  have "trace (trigger_phase env bs us m) = trace m @ ?X"
    unfolding trigger_phase_def Let_def
    by (simp only: save_previous_proj show_check_summary_proj emit_proj X3(1) X1(1)) simp
  moreover have "\<forall>t \<in> set bs \<union> set us. trigger_log (dry_run m) t \<in> set ?X
             \<and> (dry_run m \<or> \<not> sleeps_allowed (config m)
                 \<or> repair_request (config m) t \<in> set ?X)"
    using X1(2) X3(2) by auto
  moreover have "\<exists>cs cmp. CheckSummary cs cmp \<in> set ?X"
    by (rule exI, rule exI, rule in_set_last_of_two)
  ultimately show ?thesis by blast
qed

lemma perform_check_dual_failure:
  assumes "broken_fetch env m = None" and "under_repair_fetch env m = None"
  shows "perform_check env m =
     upd_stats (\<lambda>s. s\<lparr>total_checks := total_checks s + 1,
                      last_check := Some (now_check env)\<rparr>)
       (emit (Log ERROR ''Failed to retrieve torrent status - API calls failed'')
          (after_fetch env m))"
  unfolding perform_check_def
  by (subst fetch_status_eq) (simp add: assms)

lemma after_warnings_proj:
  "stats (after_warnings env m) = stats (after_fetch env m)"
  "config (after_warnings env m) = config m"
  "dry_run (after_warnings env m) = dry_run m"
  by (simp_all add: after_warnings_def Let_def emit_proj fetch_status_fixed
      split: option.splits)

lemma after_warnings_trace:
  "\<exists>W. trace (after_warnings env m) = trace m @ W
       \<and> filter is_trigger_event W = []
       \<and> (broken_fetch env m \<noteq> None \<or> Log WARN broken_fetch_warning \<in> set W)
       \<and> (under_repair_fetch env m \<noteq> None \<or> Log WARN under_repair_fetch_warning \<in> set W)"
proof -
  obtain X where X: "trace (after_fetch env m) = trace m @ X" "filter is_trigger_event X = []"
    using fetch_status_trace by blast
  let ?W = "(case broken_fetch env m of None \<Rightarrow> [Log WARN broken_fetch_warning] | Some ts \<Rightarrow> [])
          @ (case under_repair_fetch env m of
               None \<Rightarrow> [Log WARN under_repair_fetch_warning] | Some ts \<Rightarrow> [])"
  have "trace (after_warnings env m) = trace m @ (X @ ?W)"
    by (simp add: after_warnings_def Let_def emit_proj X(1) split: option.splits)
  moreover have "filter is_trigger_event (X @ ?W) = []"
    by (simp add: X(2) broken_fetch_warning_def under_repair_fetch_warning_def starts_with_def
        split: option.splits)
  moreover have "broken_fetch env m \<noteq> None \<or> Log WARN broken_fetch_warning \<in> set (X @ ?W)"
    "under_repair_fetch env m \<noteq> None \<or> Log WARN under_repair_fetch_warning \<in> set (X @ ?W)"
    by (auto split: option.splits)
  ultimately show ?thesis by blast
qed

lemma perform_check_proceeds:
  assumes "\<not> (broken_fetch env m = None \<and> under_repair_fetch env m = None)"
  shows "perform_check env m =
           (let m8 = record_counts env (fetched (broken_fetch env m))
                       (fetched (under_repair_fetch env m)) (after_warnings env m)
            in if fetched (broken_fetch env m) = [] \<and> fetched (under_repair_fetch env m) = []
               then save_previous []
                      (show_check_summary
                        (emit (Log INFO ''Torrent status check completed'')
                          (emit (Log SUCCESS healthy_message) m8)))
               else trigger_phase env (fetched (broken_fetch env m))
                      (fetched (under_repair_fetch env m)) m8)"
  unfolding perform_check_def
  using assms
  by (subst fetch_status_eq)
     (auto simp: fetched_def after_warnings_def Let_def split: option.splits)

text \<open>What a check does to the counters, whatever the fetches return.\<close>

lemma perform_check_counters:
  "\<exists>j. 0 \<le> j
     \<and> total_checks (stats (perform_check env m)) = total_checks (stats m) + 1
     \<and> OverallStats.broken_found (stats (perform_check env m))
         = OverallStats.broken_found (stats m) + int (length (fetched (broken_fetch env m)))
     \<and> OverallStats.under_repair_found (stats (perform_check env m))
         = OverallStats.under_repair_found (stats m)
           + int (length (fetched (under_repair_fetch env m)))
     \<and> OverallStats.repairs_triggered (stats (perform_check env m))
         = OverallStats.repairs_triggered (stats m) + j"
proof (cases "broken_fetch env m = None \<and> under_repair_fetch env m = None")
  case True
  then show ?thesis
    by (intro exI [of _ 0])
       (simp add: perform_check_dual_failure step_proj fetch_status_stats fetched_def)
next
  case False
  let ?bs = "fetched (broken_fetch env m)"
  let ?us = "fetched (under_repair_fetch env m)"
  note pc = perform_check_proceeds [OF False]
  let ?m8 = "record_counts env ?bs ?us (after_warnings env m)"
  have c8: "total_checks (stats ?m8) = total_checks (stats m) + 1"
    "OverallStats.broken_found (stats ?m8) = OverallStats.broken_found (stats m) + int (length ?bs)"
    "OverallStats.under_repair_found (stats ?m8)
       = OverallStats.under_repair_found (stats m) + int (length ?us)"
    "OverallStats.repairs_triggered (stats ?m8) = OverallStats.repairs_triggered (stats m)"
    by (simp_all add: record_counts_counters after_warnings_proj fetch_status_stats)
  show ?thesis
  proof (cases "?bs = [] \<and> ?us = []")
    case True
    then have "perform_check env m = save_previous []
                      (show_check_summary
                        (emit (Log INFO ''Torrent status check completed'')
                          (emit (Log SUCCESS healthy_message) ?m8)))"
      by (simp add: pc Let_def)
    with c8 show ?thesis
      by (intro exI [of _ 0]) (simp add: phase_proj)
  next
    case False
    then have eq: "perform_check env m = trigger_phase env ?bs ?us ?m8"
      by (auto simp: pc Let_def)
    obtain j where j: "0 \<le> j"
      "stats (trigger_phase env ?bs ?us ?m8) =
         (stats ?m8)\<lparr>OverallStats.repairs_triggered :=
                      OverallStats.repairs_triggered (stats ?m8) + j,
                   current_check := (current_check (stats ?m8))
                     \<lparr>CheckStats.repairs_triggered :=
                        CheckStats.repairs_triggered (current_check (stats ?m8)) + j\<rparr>,
                   previous_check_broken := broken_hashes (current_check (stats ?m8)),
                   previous_check_under_repair := under_repair_hashes (current_check (stats ?m8)),
                   previous_check_triggered := broken_hashes (current_check (stats ?m8))
                      @ under_repair_hashes (current_check (stats ?m8))\<rparr>"
      using trigger_phase_stats [of ?bs ?us env ?m8] by blast
    from j(1) c8 show ?thesis
      by (intro exI [of _ j]) (simp add: eq j(2))
  qed
qed

subsection \<open>Cumulative counters\<close>

text \<open>
  C9. Whatever the three fetches and the repair requests return, no cumulative counter
  of the overall statistics (checks, broken found, under repair found, repairs triggered)
  is smaller after \<open>perform_check\<close> than before.
\<close>

theorem cumulative_counters_monotone:
  "total_checks (stats m) \<le> total_checks (stats (perform_check env m))
   \<and> OverallStats.broken_found (stats m)
       \<le> OverallStats.broken_found (stats (perform_check env m))
   \<and> OverallStats.under_repair_found (stats m)
       \<le> OverallStats.under_repair_found (stats (perform_check env m))
   \<and> OverallStats.repairs_triggered (stats m)
       \<le> OverallStats.repairs_triggered (stats (perform_check env m))"
  using perform_check_counters [of env m] by auto

subsection \<open>Both fetches fail\<close>

text \<open>
  C5. When both category fetches fail (each returns \<open>None\<close>), \<open>perform_check\<close> counts
  the check and records
  its time, and changes nothing else of the statistics that the fetches have left. With
  respect to the statistics before the cycle: the current statistics are those created
  at the start of the cycle, all zero and empty but for the total when the full listing
  could be fetched; every other part, the three previous lists among them, is as before;
  and no repair is triggered.
\<close>

theorem dual_failure_frame:
  assumes "broken_fetch env m = None" and "under_repair_fetch env m = None"
  shows "stats (perform_check env m) =
           (stats (after_fetch env m))
             \<lparr>total_checks := total_checks (stats (after_fetch env m)) + 1,
              last_check := Some (now_check env)\<rparr>
       \<and> stats (perform_check env m) =
           (stats m)\<lparr>total_checks := total_checks (stats m) + 1,
                     last_check := Some (now_check env),
                     current_check := CheckStats_init
                       \<lparr>total_torrents := (case total_fetch env m of None \<Rightarrow> 0 | Some n \<Rightarrow> n)\<rparr>\<rparr>
       \<and> CheckStats.broken_found (current_check (stats (perform_check env m))) = 0
       \<and> CheckStats.under_repair_found (current_check (stats (perform_check env m))) = 0
       \<and> CheckStats.repairs_triggered (current_check (stats (perform_check env m))) = 0
       \<and> filter is_trigger_event (new_events m (perform_check env m)) = []
       \<and> previous_check_broken (stats (perform_check env m)) = previous_check_broken (stats m)
       \<and> previous_check_under_repair (stats (perform_check env m))
           = previous_check_under_repair (stats m)
       \<and> previous_check_triggered (stats (perform_check env m))
           = previous_check_triggered (stats m)"
proof -
  note pc = perform_check_dual_failure [OF assms]
  have st: "stats (perform_check env m) =
           (stats m)\<lparr>total_checks := total_checks (stats m) + 1,
                     last_check := Some (now_check env),
                     current_check := CheckStats_init
                       \<lparr>total_torrents := (case total_fetch env m of None \<Rightarrow> 0 | Some n \<Rightarrow> n)\<rparr>\<rparr>"
    by (simp add: pc step_proj fetch_status_stats)
  have af: "stats (perform_check env m) =
           (stats (after_fetch env m))
             \<lparr>total_checks := total_checks (stats (after_fetch env m)) + 1,
              last_check := Some (now_check env)\<rparr>"
    by (simp add: pc step_proj)
  obtain X where X: "trace (after_fetch env m) = trace m @ X" "filter is_trigger_event X = []"
    using fetch_status_trace by blast
  have tr: "filter is_trigger_event (new_events m (perform_check env m)) = []"
    by (simp add: pc step_proj new_events_def X starts_with_def)
  have cur: "CheckStats.broken_found (current_check (stats (perform_check env m))) = 0"
    "CheckStats.under_repair_found (current_check (stats (perform_check env m))) = 0"
    "CheckStats.repairs_triggered (current_check (stats (perform_check env m))) = 0"
    by (simp_all add: st CheckStats_init_def)
  have prev: "previous_check_broken (stats (perform_check env m)) = previous_check_broken (stats m)"
    "previous_check_under_repair (stats (perform_check env m))
           = previous_check_under_repair (stats m)"
    "previous_check_triggered (stats (perform_check env m))
           = previous_check_triggered (stats m)"
    by (simp_all add: st)
  from af st cur tr prev show ?thesis by blast
qed

subsection \<open>Healthy cycle\<close>

text \<open>
  C4. When the lists used for both categories are empty and at least one category was
  fetched, the cycle triggers no repair (no trigger event, both counters of triggered
  repairs untouched), the list of previously triggered hashes becomes empty, and the
  number of healthy torrents equals the total of the cycle.
\<close>

theorem healthy_cycle:
  assumes "fetched (broken_fetch env m) = []" and "fetched (under_repair_fetch env m) = []"
      and "\<not> (broken_fetch env m = None \<and> under_repair_fetch env m = None)"
  shows "filter is_trigger_event (new_events m (perform_check env m)) = []
       \<and> OverallStats.repairs_triggered (stats (perform_check env m))
           = OverallStats.repairs_triggered (stats m)
       \<and> CheckStats.repairs_triggered (current_check (stats (perform_check env m))) = 0
       \<and> previous_check_triggered (stats (perform_check env m)) = []
       \<and> total_torrents (current_check (stats (perform_check env m)))
           = (case total_fetch env m of None \<Rightarrow> 0 | Some n \<Rightarrow> n)
       \<and> ok_torrents (current_check (stats (perform_check env m)))
           = total_torrents (current_check (stats (perform_check env m)))"
proof -
  let ?m7 = "after_warnings env m"
  let ?m8 = "record_counts env [] [] ?m7"
  have pc: "perform_check env m =
      save_previous []
        (show_check_summary
          (emit (Log INFO ''Torrent status check completed'')
            (emit (Log SUCCESS healthy_message) ?m8)))"
    using perform_check_proceeds [OF assms(3)] assms(1,2) by (simp add: Let_def)
  have s7: "stats ?m7 = (stats m)\<lparr>current_check := CheckStats_init
        \<lparr>total_torrents := (case total_fetch env m of None \<Rightarrow> 0 | Some n \<Rightarrow> n)\<rparr>\<rparr>"
    by (simp add: after_warnings_proj fetch_status_stats)
  have s8: "stats ?m8 = (stats m)\<lparr>total_checks := total_checks (stats m) + 1,
       last_check := Some (now_check env),
       current_check := CheckStats_init
        \<lparr>total_torrents := (case total_fetch env m of None \<Rightarrow> 0 | Some n \<Rightarrow> n),
         ok_torrents := (case total_fetch env m of None \<Rightarrow> 0 | Some n \<Rightarrow> n)\<rparr>\<rparr>"
  proof -
    have z: "n = 0" if "total_fetch env m = Some n" "\<not> 0 < n" for n
      using that total_fetch_nonneg [of env m n] by simp
    show ?thesis
      by (auto simp: record_counts_def Let_def step_proj s7 CheckStats_init_def z
          split: option.splits)
  qed
  obtain W where W: "trace ?m7 = trace m @ W" "filter is_trigger_event W = []"
    using after_warnings_trace by blast
  have tr: "filter is_trigger_event (new_events m (perform_check env m)) = []"
    by (simp add: pc phase_proj record_counts_trace new_events_def W starts_with_def
        healthy_message_def)
  have st: "stats (perform_check env m) =
      (stats ?m8)\<lparr>previous_check_broken := broken_hashes (current_check (stats ?m8)),
               previous_check_under_repair := under_repair_hashes (current_check (stats ?m8)),
               previous_check_triggered := []\<rparr>"
    by (simp add: pc phase_proj)
  have rest: "OverallStats.repairs_triggered (stats (perform_check env m))
           = OverallStats.repairs_triggered (stats m)"
    "CheckStats.repairs_triggered (current_check (stats (perform_check env m))) = 0"
    "previous_check_triggered (stats (perform_check env m)) = []"
    "total_torrents (current_check (stats (perform_check env m)))
           = (case total_fetch env m of None \<Rightarrow> 0 | Some n \<Rightarrow> n)"
    "ok_torrents (current_check (stats (perform_check env m)))
           = total_torrents (current_check (stats (perform_check env m)))"
    by (simp_all add: st s8 CheckStats_init_def)
  from tr rest show ?thesis by blast
qed

subsection \<open>One fetch fails\<close>

lemma perform_check_completes:
  assumes "\<not> (broken_fetch env m = None \<and> under_repair_fetch env m = None)"
  shows "\<exists>X. trace (perform_check env m) = trace m @ X
       \<and> (broken_fetch env m \<noteq> None \<or> Log WARN broken_fetch_warning \<in> set X)
       \<and> (under_repair_fetch env m \<noteq> None \<or> Log WARN under_repair_fetch_warning \<in> set X)
       \<and> (\<forall>t \<in> set (fetched (broken_fetch env m)) \<union> set (fetched (under_repair_fetch env m)).
             trigger_log (dry_run m) t \<in> set X
             \<and> (dry_run m \<or> \<not> sleeps_allowed (config m)
                 \<or> repair_request (config m) t \<in> set X))
       \<and> (\<exists>cs cmp. CheckSummary cs cmp \<in> set X)"
    and "previous_check_broken (stats (perform_check env m))
           = map hash (fetched (broken_fetch env m))"
    and "previous_check_under_repair (stats (perform_check env m))
           = map hash (fetched (under_repair_fetch env m))"
    and "previous_check_triggered (stats (perform_check env m))
           = map hash (fetched (broken_fetch env m) @ fetched (under_repair_fetch env m))"
proof -
  let ?bs = "fetched (broken_fetch env m)"
  let ?us = "fetched (under_repair_fetch env m)"
  let ?m7 = "after_warnings env m"
  let ?m8 = "record_counts env ?bs ?us ?m7"
  note pc = perform_check_proceeds [OF assms]
  obtain W where W: "trace ?m7 = trace m @ W"
    "broken_fetch env m \<noteq> None \<or> Log WARN broken_fetch_warning \<in> set W"
    "under_repair_fetch env m \<noteq> None \<or> Log WARN under_repair_fetch_warning \<in> set W"
    using after_warnings_trace [of env m] by blast
  let ?R = "(if ?bs \<noteq> [] then [Log WARN ''BROKEN TORRENTS:''] else [])
             @ (if ?us \<noteq> [] then [Log INFO ''UNDER REPAIR:''] else [])"
  have t8: "trace ?m8 = trace m @ W @ ?R"
    by (simp add: record_counts_trace W(1))
  have l8: "broken_hashes (current_check (stats ?m8)) = map hash ?bs"
    "under_repair_hashes (current_check (stats ?m8)) = map hash ?us"
    by (simp_all add: record_counts_lists after_warnings_proj fetch_status_stats
        CheckStats_init_def)
  have f8: "dry_run ?m8 = dry_run m" "config ?m8 = config m"
    by (simp_all add: record_counts_fixed after_warnings_proj)
  show "\<exists>X. trace (perform_check env m) = trace m @ X
       \<and> (broken_fetch env m \<noteq> None \<or> Log WARN broken_fetch_warning \<in> set X)
       \<and> (under_repair_fetch env m \<noteq> None \<or> Log WARN under_repair_fetch_warning \<in> set X)
       \<and> (\<forall>t \<in> set ?bs \<union> set ?us.
             trigger_log (dry_run m) t \<in> set X
             \<and> (dry_run m \<or> \<not> sleeps_allowed (config m)
                 \<or> repair_request (config m) t \<in> set X))
       \<and> (\<exists>cs cmp. CheckSummary cs cmp \<in> set X)"
  proof (cases "?bs = [] \<and> ?us = []")
    case True
    let ?X = "W @ [Log SUCCESS healthy_message, Log INFO ''Torrent status check completed'',
       CheckSummary (current_check (stats ?m8)) (comparison (stats ?m8))]"
    have "trace (perform_check env m) = trace m @ ?X"
      using True by (simp add: pc Let_def phase_proj record_counts_trace W(1))
    moreover have "\<exists>cs cmp. CheckSummary cs cmp \<in> set ?X"
      by (rule exI, rule exI, rule in_set_last_of_three)
    ultimately show ?thesis using W(2,3) True
      by (intro exI [of _ ?X]) auto
  next
    case False
    then have eq: "perform_check env m = trigger_phase env ?bs ?us ?m8"
      by (auto simp: pc Let_def)
    obtain X where X: "trace (trigger_phase env ?bs ?us ?m8) = trace ?m8 @ X"
      "\<forall>t \<in> set ?bs \<union> set ?us. trigger_log (dry_run m) t \<in> set X
             \<and> (dry_run m \<or> \<not> sleeps_allowed (config m)
                 \<or> repair_request (config m) t \<in> set X)"
      "\<exists>cs cmp. CheckSummary cs cmp \<in> set X"
      using trigger_phase_trace [of env ?bs ?us ?m8] unfolding f8 by blast
    have "trace (perform_check env m) = trace m @ (W @ ?R @ X)"
      by (simp only: eq X(1) t8 append_assoc)
    with W(2,3) X(2,3) show ?thesis
      by (intro exI [of _ "W @ ?R @ X"]) auto
  qed
  show "previous_check_broken (stats (perform_check env m)) = map hash ?bs"
    "previous_check_under_repair (stats (perform_check env m)) = map hash ?us"
    "previous_check_triggered (stats (perform_check env m)) = map hash (?bs @ ?us)"
  proof -
    have "previous_check_broken (stats (perform_check env m)) = map hash ?bs
        \<and> previous_check_under_repair (stats (perform_check env m)) = map hash ?us
        \<and> previous_check_triggered (stats (perform_check env m)) = map hash (?bs @ ?us)"
    proof (cases "?bs = [] \<and> ?us = []")
      case True
      then show ?thesis
        using l8 by (simp add: pc Let_def phase_proj)
    next
      case False
      then have eq: "perform_check env m = trigger_phase env ?bs ?us ?m8"
        by (auto simp: pc Let_def)
      obtain j where "stats (trigger_phase env ?bs ?us ?m8) =
         (stats ?m8)\<lparr>OverallStats.repairs_triggered :=
                      OverallStats.repairs_triggered (stats ?m8) + j,
                   current_check := (current_check (stats ?m8))
                     \<lparr>CheckStats.repairs_triggered :=
                        CheckStats.repairs_triggered (current_check (stats ?m8)) + j\<rparr>,
                   previous_check_broken := broken_hashes (current_check (stats ?m8)),
                   previous_check_under_repair := under_repair_hashes (current_check (stats ?m8)),
                   previous_check_triggered := broken_hashes (current_check (stats ?m8))
                      @ under_repair_hashes (current_check (stats ?m8))\<rparr>"
        using trigger_phase_stats [of ?bs ?us env ?m8] by blast
      then show ?thesis
        by (simp add: eq l8)
    qed
    then show "previous_check_broken (stats (perform_check env m)) = map hash ?bs"
      "previous_check_under_repair (stats (perform_check env m)) = map hash ?us"
      "previous_check_triggered (stats (perform_check env m)) = map hash (?bs @ ?us)"
      by blast+
  qed
qed

text \<open>
  C6. When exactly one category fetch fails, the cycle goes on to its end: the warning
  for the failed category is logged, the empty list stands for it (in the current and,
  at the end, in the previous lists), the check is counted, the summary is shown, and
  \<open>trigger_repair\<close> is called for every torrent of the fetched category: its first log
  line is there and so is, unless the run is dry or the rate limiter's sleep raises on a
  negative delay (\<open>trigger_repair\<close> then catches the exception and reports failure), the
  POST request to the torrent's repair address.
\<close>

theorem partial_failure_proceeds:
  assumes "(broken_fetch env m = None) \<noteq> (under_repair_fetch env m = None)"
  shows "Log WARN (if broken_fetch env m = None then broken_fetch_warning
                   else under_repair_fetch_warning)
           \<in> set (new_events m (perform_check env m))
       \<and> (\<forall>t \<in> set (fetched (broken_fetch env m)) \<union> set (fetched (under_repair_fetch env m)).
             trigger_log (dry_run m) t \<in> set (new_events m (perform_check env m))
             \<and> (dry_run m \<or> \<not> sleeps_allowed (config m)
                 \<or> repair_request (config m) t \<in> set (new_events m (perform_check env m))))
       \<and> (\<exists>cs cmp. CheckSummary cs cmp \<in> set (new_events m (perform_check env m)))
       \<and> total_checks (stats (perform_check env m)) = total_checks (stats m) + 1
       \<and> previous_check_broken (stats (perform_check env m))
           = map hash (fetched (broken_fetch env m))
       \<and> previous_check_under_repair (stats (perform_check env m))
           = map hash (fetched (under_repair_fetch env m))
       \<and> previous_check_triggered (stats (perform_check env m))
           = map hash (fetched (broken_fetch env m) @ fetched (under_repair_fetch env m))"
proof -
  from assms have one: "\<not> (broken_fetch env m = None \<and> under_repair_fetch env m = None)"
    by blast
  obtain X where X: "trace (perform_check env m) = trace m @ X"
    "broken_fetch env m \<noteq> None \<or> Log WARN broken_fetch_warning \<in> set X"
    "under_repair_fetch env m \<noteq> None \<or> Log WARN under_repair_fetch_warning \<in> set X"
    "\<forall>t \<in> set (fetched (broken_fetch env m)) \<union> set (fetched (under_repair_fetch env m)).
             trigger_log (dry_run m) t \<in> set X
             \<and> (dry_run m \<or> \<not> sleeps_allowed (config m)
                 \<or> repair_request (config m) t \<in> set X)"
    "\<exists>cs cmp. CheckSummary cs cmp \<in> set X"
    using perform_check_completes(1) [OF one] by blast
  have ne: "new_events m (perform_check env m) = X"
    by (simp add: new_events_def X(1))
  have w: "Log WARN (if broken_fetch env m = None then broken_fetch_warning
                   else under_repair_fetch_warning) \<in> set X"
    using assms X(2,3) by auto
  have tc: "total_checks (stats (perform_check env m)) = total_checks (stats m) + 1"
    using perform_check_counters [of env m] by blast
  from w X(4,5) tc perform_check_completes(2,3,4) [OF one]
  show ?thesis unfolding ne by blast
qed

subsection \<open>The three kinds of cycle at example inputs\<close>

lemma example_monitor_sleeps_allowed:
  "sleeps_allowed (config ((ZurgMonitor_init default_config False)\<lparr>stats := s\<rparr>))"
  "sleeps_allowed (config (ZurgMonitor_init default_config False))"
  by (simp_all add: sleeps_allowed_def ZurgMonitor_init_def default_config_def)

theorem dual_failure_frame_witness:
  "broken_fetch failing_env
     ((ZurgMonitor_init default_config False)\<lparr>stats := example_stats\<rparr>) = None
   \<and> under_repair_fetch failing_env
     ((ZurgMonitor_init default_config False)\<lparr>stats := example_stats\<rparr>) = None
   \<and> total_checks (stats (perform_check failing_env
         ((ZurgMonitor_init default_config False)\<lparr>stats := example_stats\<rparr>))) = 1
   \<and> previous_check_triggered (stats (perform_check failing_env
         ((ZurgMonitor_init default_config False)\<lparr>stats := example_stats\<rparr>)))
       = [''A'', ''B'', ''C'']
   \<and> filter is_trigger_event
         (new_events ((ZurgMonitor_init default_config False)\<lparr>stats := example_stats\<rparr>)
            (perform_check failing_env
               ((ZurgMonitor_init default_config False)\<lparr>stats := example_stats\<rparr>))) = []"
proof -
  let ?M = "(ZurgMonitor_init default_config False)\<lparr>stats := example_stats\<rparr>"
  have a: "broken_fetch failing_env ?M = None" "under_repair_fetch failing_env ?M = None"
    using fetches_when_sleeps_allowed(2,3) [OF example_monitor_sleeps_allowed(1)]
    by (simp_all add: failing_env_def)
  note frame = dual_failure_frame [OF a]
  from frame have "stats (perform_check failing_env ?M) =
           (stats ?M)\<lparr>total_checks := total_checks (stats ?M) + 1,
                     last_check := Some (now_check failing_env),
                     current_check := CheckStats_init
                       \<lparr>total_torrents :=
                          (case total_fetch failing_env ?M of None \<Rightarrow> 0 | Some n \<Rightarrow> n)\<rparr>\<rparr>"
    by blast
  then have tc: "total_checks (stats (perform_check failing_env ?M)) = 1"
    by (simp add: ZurgMonitor_init_def example_stats_def OverallStats_init_def)
  from frame have "previous_check_triggered (stats (perform_check failing_env ?M))
      = previous_check_triggered (stats ?M)"
    by blast
  then have pt: "previous_check_triggered (stats (perform_check failing_env ?M))
      = [''A'', ''B'', ''C'']"
    by (simp add: example_stats_def OverallStats_init_def)
  from frame have tr: "filter is_trigger_event
      (new_events ?M (perform_check failing_env ?M)) = []"
    by blast
  from a tc pt tr show ?thesis by blast
qed

theorem healthy_cycle_witness:
  "fetched (broken_fetch healthy_env
     ((ZurgMonitor_init default_config False)\<lparr>stats := example_stats\<rparr>)) = []
   \<and> fetched (under_repair_fetch healthy_env
     ((ZurgMonitor_init default_config False)\<lparr>stats := example_stats\<rparr>)) = []
   \<and> broken_fetch healthy_env
     ((ZurgMonitor_init default_config False)\<lparr>stats := example_stats\<rparr>) \<noteq> None
   \<and> previous_check_triggered (stats (perform_check healthy_env
         ((ZurgMonitor_init default_config False)\<lparr>stats := example_stats\<rparr>))) = []
   \<and> total_torrents (current_check (stats (perform_check healthy_env
         ((ZurgMonitor_init default_config False)\<lparr>stats := example_stats\<rparr>)))) = 2
   \<and> ok_torrents (current_check (stats (perform_check healthy_env
         ((ZurgMonitor_init default_config False)\<lparr>stats := example_stats\<rparr>)))) = 2
   \<and> filter is_trigger_event
         (new_events ((ZurgMonitor_init default_config False)\<lparr>stats := example_stats\<rparr>)
            (perform_check healthy_env
               ((ZurgMonitor_init default_config False)\<lparr>stats := example_stats\<rparr>))) = []"
proof -
  let ?M = "(ZurgMonitor_init default_config False)\<lparr>stats := example_stats\<rparr>"
  note f = fetches_when_sleeps_allowed [OF example_monitor_sleeps_allowed(1)]
  have a: "fetched (broken_fetch healthy_env ?M) = []"
    "fetched (under_repair_fetch healthy_env ?M) = []"
    by (simp_all add: f healthy_env_def fetched_def)
  have b: "broken_fetch healthy_env ?M \<noteq> None"
    by (simp add: f healthy_env_def)
  then have c: "\<not> (broken_fetch healthy_env ?M = None \<and> under_repair_fetch healthy_env ?M = None)"
    by simp
  have two: "count_total example_page = 2"
    by code_simp
  have tf: "total_fetch healthy_env ?M = Some 2"
    by (simp add: f healthy_env_def two)
  note healthy = healthy_cycle [OF a c]
  from healthy have pt: "previous_check_triggered (stats (perform_check healthy_env ?M)) = []"
    by blast
  from healthy have "total_torrents (current_check (stats (perform_check healthy_env ?M)))
      = (case total_fetch healthy_env ?M of None \<Rightarrow> 0 | Some n \<Rightarrow> n)"
    by blast
  then have tt: "total_torrents (current_check (stats (perform_check healthy_env ?M))) = 2"
    by (simp add: tf)
  from healthy have "ok_torrents (current_check (stats (perform_check healthy_env ?M)))
      = total_torrents (current_check (stats (perform_check healthy_env ?M)))"
    by blast
  with tt have ok: "ok_torrents (current_check (stats (perform_check healthy_env ?M))) = 2"
    by simp
  from healthy have tr: "filter is_trigger_event
      (new_events ?M (perform_check healthy_env ?M)) = []"
    by blast
  from a b pt tt ok tr show ?thesis by blast
qed

theorem partial_failure_proceeds_witness:
  "(broken_fetch partial_env (ZurgMonitor_init default_config False) = None)
     \<noteq> (under_repair_fetch partial_env (ZurgMonitor_init default_config False) = None)
   \<and> Log WARN broken_fetch_warning
       \<in> set (new_events (ZurgMonitor_init default_config False)
                (perform_check partial_env (ZurgMonitor_init default_config False)))
   \<and> Log INFO ''Triggering repair for torrent: second''
       \<in> set (new_events (ZurgMonitor_init default_config False)
                (perform_check partial_env (ZurgMonitor_init default_config False)))
   \<and> Request ''POST'' ''http://localhost:9999/manage/aa/repair''
       \<in> set (new_events (ZurgMonitor_init default_config False)
                (perform_check partial_env (ZurgMonitor_init default_config False)))
   \<and> Request ''POST'' ''http://localhost:9999/manage/bb/repair''
       \<in> set (new_events (ZurgMonitor_init default_config False)
                (perform_check partial_env (ZurgMonitor_init default_config False)))
   \<and> previous_check_broken (stats (perform_check partial_env
         (ZurgMonitor_init default_config False))) = []
   \<and> previous_check_triggered (stats (perform_check partial_env
         (ZurgMonitor_init default_config False))) = [''aa'', ''bb'']"
proof -
  let ?M = "ZurgMonitor_init default_config False"
  let ?t1 = "example_torrent ''aa'' ''first'' ''status_under_repair''"
  let ?t2 = "example_torrent ''bb'' ''second'' ''status_under_repair''"
  let ?new = "new_events ?M (perform_check partial_env ?M)"
  note f = fetches_when_sleeps_allowed [OF example_monitor_sleeps_allowed(2)]
  have bf: "broken_fetch partial_env ?M = None"
    and uf: "under_repair_fetch partial_env ?M = Some [?t1, ?t2]"
    by (simp_all add: f partial_env_def)
  have a: "(broken_fetch partial_env ?M = None) \<noteq> (under_repair_fetch partial_env ?M = None)"
    by (simp add: bf uf)
  have m: "dry_run ?M = False" "zurg_url (config ?M) = ''http://localhost:9999''"
    by (simp_all add: ZurgMonitor_init_def default_config_def)
  note p = partial_failure_proceeds [OF a]
  from p have "Log WARN (if broken_fetch partial_env ?M = None then broken_fetch_warning
                   else under_repair_fetch_warning) \<in> set ?new"
    by blast
  then have w: "Log WARN broken_fetch_warning \<in> set ?new"
    by (simp add: bf)
  from p have "\<forall>t \<in> set (fetched (broken_fetch partial_env ?M))
                    \<union> set (fetched (under_repair_fetch partial_env ?M)).
             trigger_log (dry_run ?M) t \<in> set ?new
             \<and> (dry_run ?M \<or> \<not> sleeps_allowed (config ?M)
                 \<or> repair_request (config ?M) t \<in> set ?new)"
    by blast
  then have each: "trigger_log False t \<in> set ?new \<and> repair_request (config ?M) t \<in> set ?new"
    if "t = ?t1 \<or> t = ?t2" for t
    using that example_monitor_sleeps_allowed(2) by (auto simp: bf uf fetched_def m(1))
  have l2: "Log INFO ''Triggering repair for torrent: second'' \<in> set ?new"
    using each [of ?t2] by (simp add: trigger_log_def example_torrent_def)
  have r1: "Request ''POST'' ''http://localhost:9999/manage/aa/repair'' \<in> set ?new"
    using each [of ?t1] by (simp add: repair_request_def example_torrent_def m(2))
  have r2: "Request ''POST'' ''http://localhost:9999/manage/bb/repair'' \<in> set ?new"
    using each [of ?t2] by (simp add: repair_request_def example_torrent_def m(2))
  from p have "previous_check_broken (stats (perform_check partial_env ?M))
           = map hash (fetched (broken_fetch partial_env ?M))"
    by blast
  then have pb: "previous_check_broken (stats (perform_check partial_env ?M)) = []"
    by (simp add: bf fetched_def)
  from p have "previous_check_triggered (stats (perform_check partial_env ?M))
     = map hash (fetched (broken_fetch partial_env ?M) @ fetched (under_repair_fetch partial_env ?M))"
    by blast
  then have pt: "previous_check_triggered (stats (perform_check partial_env ?M)) = [''aa'', ''bb'']"
    by (simp add: bf uf fetched_def example_torrent_def)
  from a w l2 r1 r2 pb pt show ?thesis by blast
qed

subsection \<open>Total count\<close>

lemma hex_digit_is_hex_all: "\<forall>c. hex_digit c = is_hex c"
  by code_simp

lemma fold_case_lower_char_all: "\<forall>c. \<not> is_hex c \<or> fold_case c = lower_char c"
  by code_simp

lemma hex_digit_is_hex: "hex_digit c = is_hex c"
  using hex_digit_is_hex_all by blast

lemma fold_case_lower_char: "is_hex c \<Longrightarrow> fold_case c = lower_char c"
  using fold_case_lower_char_all by blast

lemma canonical_lower: "list_all is_hex h \<Longrightarrow> canonical h = lower h"
  by (simp add: canonical_def lower_def list_all_iff fold_case_lower_char
      del: fold_case.simps)

lemma hex_identifier_iff: "hex_identifier h \<longleftrightarrow> length h = 40 \<and> list_all is_hex h"
  by (simp add: hex_identifier_def list_all_iff filter_id_conv hex_digit_is_hex)

lemma match_data_hash_iff:
  "match_data_hash s = Some (g, rest) \<longleftrightarrow>
     s = attr_prefix @ g @ [CHR 0x22] @ rest \<and> length g = 40 \<and> list_all is_hex g"
proof
  assume m: "match_data_hash s = Some (g, rest)"
  then have 1: "take 11 s = attr_prefix" and 2: "length (take 40 (drop 11 s)) = 40"
    and 3: "list_all is_hex (take 40 (drop 11 s))" and 4: "take 1 (drop 51 s) = [CHR 0x22]"
    and g: "g = take 40 (drop 11 s)" and r: "rest = drop 52 s"
    by (auto simp: match_data_hash_def attr_prefix_def split: if_splits)
  have lg: "length g = 40" "list_all is_hex g"
    using 2 3 by (simp_all add: g)
  have a: "drop 51 s = take 1 (drop 51 s) @ drop 52 s"
    using append_take_drop_id [of 1 "drop 51 s"] by simp
  have b: "drop 11 s = take 40 (drop 11 s) @ drop 51 s"
    using append_take_drop_id [of 40 "drop 11 s"] by simp
  have "s = take 11 s @ drop 11 s"
    by (rule append_take_drop_id [symmetric])
  also have "\<dots> = take 11 s @ take 40 (drop 11 s) @ drop 51 s"
    using b by simp
  also have "\<dots> = take 11 s @ take 40 (drop 11 s) @ take 1 (drop 51 s) @ drop 52 s"
    using a by simp
  also have "\<dots> = attr_prefix @ g @ [CHR 0x22] @ rest"
    by (simp only: 1 4 g r)
  finally have "s = attr_prefix @ g @ [CHR 0x22] @ rest" .
  with lg show "s = attr_prefix @ g @ [CHR 0x22] @ rest \<and> length g = 40 \<and> list_all is_hex g"
    by blast
next
  assume "s = attr_prefix @ g @ [CHR 0x22] @ rest \<and> length g = 40 \<and> list_all is_hex g"
  then show "match_data_hash s = Some (g, rest)"
    by (simp add: match_data_hash_def attr_prefix_def)
qed

lemma occurrences_Cons: "occurrences cs \<subseteq> occurrences (c # cs)"
proof
  fix h assume "h \<in> occurrences cs"
  then obtain pre post where "cs = pre @ attr_prefix @ h @ [CHR 0x22] @ post"
    "length h = 40" "list_all is_hex h"
    by (auto simp: occurrences_def)
  then have "c # cs = (c # pre) @ attr_prefix @ h @ [CHR 0x22] @ post
      \<and> length h = 40 \<and> list_all is_hex h" by simp
  then show "h \<in> occurrences (c # cs)"
    unfolding occurrences_def by blast
qed

lemma occurrences_append: "occurrences s \<subseteq> occurrences (p @ s)"
proof
  fix h assume "h \<in> occurrences s"
  then obtain pre post where "s = pre @ attr_prefix @ h @ [CHR 0x22] @ post"
    "length h = 40" "list_all is_hex h"
    by (auto simp: occurrences_def)
  then have "p @ s = (p @ pre) @ attr_prefix @ h @ [CHR 0x22] @ post
      \<and> length h = 40 \<and> list_all is_hex h" by simp
  then show "h \<in> occurrences (p @ s)"
    unfolding occurrences_def by blast
qed

lemma finditer_sound: "set (finditer_data_hash s) \<subseteq> occurrences s"
proof (induction s rule: finditer_data_hash.induct)
  case 1
  show ?case by simp
next
  case (2 c cs)
  show ?case
  proof (cases "match_data_hash (c # cs)")
    case None
    with 2(1) [OF None] occurrences_Cons [of cs c] show ?thesis by auto
  next
    case (Some p)
    obtain g rest where p: "p = (g, rest)" by (cases p)
    with Some have m: "match_data_hash (c # cs) = Some (g, rest)" by simp
    then have d: "c # cs = attr_prefix @ g @ [CHR 0x22] @ rest" "length g = 40"
      "list_all is_hex g"
      by (simp_all add: match_data_hash_iff)
    then have "c # cs = [] @ attr_prefix @ g @ [CHR 0x22] @ rest
      \<and> length g = 40 \<and> list_all is_hex g" by simp
    then have g: "g \<in> occurrences (c # cs)"
      unfolding occurrences_def by blast
    have "occurrences rest \<subseteq> occurrences (c # cs)"
      using occurrences_append [of rest "attr_prefix @ g @ [CHR 0x22]"] d(1) by simp
    with 2(2) [OF m refl] g show ?thesis
      by (auto simp: m)
  qed
qed

lemma attr_prefix_t:
  assumes "k < 11" and "attr_prefix ! k = CHR ''t''"
  shows "k = 2"
proof -
  from assms(1) have "k = 0 \<or> k = 1 \<or> k = 2 \<or> k = 3 \<or> k = 4 \<or> k = 5 \<or> k = 6
      \<or> k = 7 \<or> k = 8 \<or> k = 9 \<or> k = 10" by presburger
  with assms(2) show ?thesis
    by (auto simp: attr_prefix_def)
qed

lemma length_attr_prefix: "length attr_prefix = 11"
  by (simp add: attr_prefix_def)

text \<open>
  Two occurrences of the pattern do not overlap: the third character of the pattern, a
  \<open>t\<close>, is neither a hexadecimal digit nor a quote, and occurs nowhere else in the
  literal part.
\<close>

lemma no_overlap:
  assumes s1: "s = attr_prefix @ g @ [CHR 0x22] @ rest"
      and g: "length g = 40" "list_all is_hex g"
      and s2: "s = pre @ attr_prefix @ h @ [CHR 0x22] @ post"
      and h: "length h = 40"
      and pre: "pre \<noteq> []"
  shows "52 \<le> length pre"
proof (rule ccontr)
  let ?n = "length pre"
  assume "\<not> 52 \<le> ?n"
  then have n: "0 < ?n" "?n < 52" using pre by auto
  have second: "s ! (?n + i) = attr_prefix ! i" if "i < 11" for i
    using that by (simp add: s2 nth_append length_attr_prefix)
  have d: "s ! ?n = CHR ''d''" using second [of 0] by (simp add: attr_prefix_def)
  have a: "s ! (?n + 1) = CHR ''a''" using second [of 1] by (simp add: attr_prefix_def)
  have t: "s ! (?n + 2) = CHR ''t''" using second [of 2] by (simp add: attr_prefix_def)
  have first_prefix: "s ! j = attr_prefix ! j" if "j < 11" for j
    using that by (simp add: s1 nth_append length_attr_prefix)
  have first_hex: "is_hex (s ! j)" if "11 \<le> j" "j < 51" for j
  proof -
    have j: "j - 11 < 40" "\<not> j < 11" using that by linarith+
    have "s ! j = g ! (j - 11)"
      using j g(1) by (simp add: s1 nth_append length_attr_prefix)
    moreover have "g ! (j - 11) \<in> set g"
      using j g(1) by simp
    ultimately show ?thesis
      using g(2) by (simp add: list_all_iff)
  qed
  have first_quote: "s ! 51 = CHR 0x22"
    using g(1) by (simp add: s1 nth_append length_attr_prefix)
  have not_hex: "\<not> is_hex (CHR ''t'')" by (simp add: is_hex_def)
  consider "?n + 2 < 11" | "11 \<le> ?n + 2" "?n + 2 < 51" | "?n + 2 = 51" | "?n = 50" | "?n = 51"
    using n by linarith
  then show False
  proof cases
    case 1
    with first_prefix [of "?n + 2"] t have "attr_prefix ! (?n + 2) = CHR ''t''" by simp
    with 1 attr_prefix_t [of "?n + 2"] n show False by simp
  next
    case 2
    with first_hex [of "?n + 2"] t not_hex show False by simp
  next
    case 3
    with first_quote t show False by simp
  next
    case 4
    with first_quote a show False by simp
  next
    case 5
    with first_quote d show False by simp
  qed
qed

lemma occurrences_Nil: "occurrences [] = {}"
  by (simp add: occurrences_def attr_prefix_def)

lemma finditer_complete: "occurrences s \<subseteq> set (finditer_data_hash s)"
proof (induction s rule: finditer_data_hash.induct)
  case 1
  show ?case by (simp add: occurrences_Nil)
next
  case (2 c cs)
  show ?case
  proof
    fix h assume "h \<in> occurrences (c # cs)"
    then obtain pre post where
      occ: "c # cs = pre @ attr_prefix @ h @ [CHR 0x22] @ post"
      and h: "length h = 40" "list_all is_hex h"
      by (auto simp: occurrences_def)
    show "h \<in> set (finditer_data_hash (c # cs))"
    proof (cases "match_data_hash (c # cs)")
      case None
      have "pre \<noteq> []"
      proof
        assume "pre = []"
        with occ h have "match_data_hash (c # cs) = Some (h, post)"
          by (simp add: match_data_hash_iff)
        with None show False by simp
      qed
      then obtain pre' where pre': "pre = c # pre'"
        using occ by (cases pre) auto
      with occ have "cs = pre' @ attr_prefix @ h @ [CHR 0x22] @ post" by simp
      with h have "h \<in> occurrences cs"
        unfolding occurrences_def by blast
      with 2(1) [OF None] show ?thesis
        by (auto simp: None)
    next
      case (Some p)
      obtain g rest where p: "p = (g, rest)" by (cases p)
      with Some have m: "match_data_hash (c # cs) = Some (g, rest)" by simp
      then have d: "c # cs = attr_prefix @ g @ [CHR 0x22] @ rest" "length g = 40"
        "list_all is_hex g"
        by (simp_all add: match_data_hash_iff)
      show ?thesis
      proof (cases "pre = []")
        case True
        with occ d(1) have "h @ CHR 0x22 # post = g @ CHR 0x22 # rest" by simp
        with h(1) d(2) have "h = g" by simp
        then show ?thesis by (simp add: m)
      next
        case False
        from no_overlap [OF d occ h(1) False] have long: "52 \<le> length pre" .
        have "drop 52 (c # cs) = rest"
          by (subst d(1)) (simp add: length_attr_prefix d(2))
        moreover have "drop 52 (c # cs) = drop 52 pre @ attr_prefix @ h @ [CHR 0x22] @ post"
          using long by (subst occ) simp
        ultimately have "rest = drop 52 pre @ attr_prefix @ h @ [CHR 0x22] @ post" by simp
        with h have "h \<in> occurrences rest"
          unfolding occurrences_def by blast
        with 2(2) [OF m refl] show ?thesis
          by (auto simp: m)
      qed
    qed
  qed
qed

lemma finditer_occurrences: "set (finditer_data_hash s) = occurrences s"
  using finditer_sound finditer_complete by blast

lemma fold_insert_image: "fold (\<lambda>g hashes. insert (f g) hashes) xs A = f ` set xs \<union> A"
  by (induction xs arbitrary: A) auto

lemma data_hash_identifiers_occurrences:
  "data_hash_identifiers html_content = lower ` occurrences html_content"
proof -
  have "data_hash_identifiers html_content = canonical ` occurrences html_content"
    by (auto simp: data_hash_identifiers_def occurrences_def hex_identifier_iff attr_prefix_def)
  also have "\<dots> = lower ` occurrences html_content"
    by (rule image_cong) (simp_all add: occurrences_def canonical_lower)
  finally show ?thesis .
qed

text \<open>
  C8, as amended. For every markup string the total count is the number of distinct
  identifiers that are the value of a \<^verbatim>\<open>data-hash\<close> attribute, wherever the attribute
  stands and whatever the category of its row; identifiers that differ only in letter
  case count once.
\<close>

theorem count_total_data_hash_identifiers:
  "count_total html_content = int (card (data_hash_identifiers html_content))"
  by (simp add: count_total_def Let_def fold_insert_image finditer_occurrences
      data_hash_identifiers_occurrences)

text \<open>
  The example listing has three rows and two distinct identifiers: the forty capital and
  the forty small letters are the same identifier.
\<close>

lemma count_total_example: "count_total example_page = 2"
  by code_simp

theorem count_total_data_hash_identifiers_witness:
  "int (card (data_hash_identifiers example_page)) = 2"
  using count_total_data_hash_identifiers [of example_page] count_total_example by simp

lemma finite_identifiers_anywhere: "finite (identifiers_anywhere s)"
proof -
  let ?windows = "(\<lambda>(i, j). take j (drop i s)) ` ({..length s} \<times> {..length s})"
  have "identifiers_anywhere s \<subseteq> canonical ` ?windows"
  proof
    fix x assume "x \<in> identifiers_anywhere s"
    then obtain h pre post where x: "x = canonical h" and s: "s = pre @ h @ post"
      by (auto simp: identifiers_anywhere_def)
    have "h \<in> ?windows"
      by (rule image_eqI [where x = "(length pre, length h)"]) (simp_all add: s)
    with x show "x \<in> canonical ` ?windows" by blast
  qed
  moreover have "finite (canonical ` ?windows)" by simp
  ultimately show ?thesis by (rule finite_subset)
qed

lemma link_identifier_anywhere:
  "replicate 40 (CHR ''7'') \<in> identifiers_anywhere example_link_page"
proof -
  let ?h = "replicate 40 (CHR ''7'')"
  let ?pre = "''<a href='' @ [CHR 0x22] @ ''/manage/''"
  let ?post = "''/'' @ [CHR 0x22] @ ''>x</a>''"
  have a: "hex_identifier ?h"
    by (simp add: hex_identifier_def hex_digit_def)
  have b: "?h = canonical ?h"
    by (simp add: canonical_def)
  have c: "example_link_page = ?pre @ ?h @ ?post"
    by (simp add: example_link_page_def)
  have "\<exists>h pre post. ?h = canonical h \<and> example_link_page = pre @ h @ post
      \<and> hex_identifier h"
    by (rule exI [of _ ?h], rule exI [of _ ?pre], rule exI [of _ ?post])
       (intro conjI a b c)
  then show ?thesis
    by (simp only: identifiers_anywhere_def mem_Collect_eq)
qed

lemma count_total_link_only: "count_total example_link_page = 0"
  by code_simp

text \<open>
  C8 as stated fails: the total count is not the number of identifiers found anywhere in
  the markup. A page that names a torrent in a management link only, where the parser
  of the category pages would find it, has an identifier and a total count of 0.
\<close>

theorem count_total_link_counterexample:
  "count_total example_link_page
     \<noteq> int (card (identifiers_anywhere example_link_page))"
proof -
  have "card (identifiers_anywhere example_link_page) \<noteq> 0"
    using finite_identifiers_anywhere [of example_link_page] link_identifier_anywhere
    by auto
  then show ?thesis
    by (simp add: count_total_link_only)
qed

end
